theory Spec2Isabelle
  imports Main "HOL-Library.AList"
begin

text \<open>
  A shallow embedding of \<open>js/book-manager.js\<close>, the \<open>BookManager\<close> class: the
  normalisation of raw records, the two batch imports, the single additions, update,
  delete, clear-all and search, with the properties of the record collection that the
  specification states about them.

  Conventions of the model. A method that mutates \<open>this.library\<close> is a function from the
  manager's state to the state it leaves, paired with what it returns, or with the error
  it throws (a throw keeps the mutations made before it). A batch import is given the
  parsed array; the catalogue requests are given their replies; the regular-expression
  engine, the clock and the lower-casing of strings are the runtime's and are parameters. The operations are run one after another: the
  interleaving of two calls at an \<open>await\<close> is not modelled.
\<close>

section \<open>JavaScript values and objects\<close>

text \<open>
  The fields of a book record hold primitive JavaScript values as JSON delivers them.
  Numbers are the integers (epoch milliseconds, ratings); strings are their UTF-8 bytes.
  Strict equality (\<open>===\<close>) on these primitives is equality of the values.
\<close>

datatype jsval = JUndefined | JNull | JBool bool | JNum int | JStr string

text \<open>ToBoolean: \<open>undefined\<close>, \<open>null\<close>, \<open>false\<close>, \<open>0\<close> and the empty string are falsy.\<close>

fun truthy :: "jsval \<Rightarrow> bool" where
  "truthy JUndefined = False"
| "truthy JNull = False"
| "truthy (JBool b) = b"
| "truthy (JNum n) = (n \<noteq> 0)"
| "truthy (JStr s) = (s \<noteq> [])"

text \<open>\<open>a || b\<close> on values.\<close>

definition js_or :: "jsval \<Rightarrow> jsval \<Rightarrow> jsval" where
  "js_or a b = (if truthy a then a else b)"

text \<open>A field that holds a string, and the string it holds.\<close>

fun is_string :: "jsval \<Rightarrow> bool" where
  "is_string (JStr s) = True"
| "is_string v = False"

fun string_of :: "jsval \<Rightarrow> string" where
  "string_of (JStr s) = s"
| "string_of v = []"

text \<open>
  An object is the list of its own properties in insertion order. Reading a missing
  property gives \<open>undefined\<close>; assigning keeps the position of an existing key and
  appends a new one; \<open>delete\<close> removes the key. A property can be present with the
  value \<open>undefined\<close>, which differs from an absent one only in \<open>has_key\<close>. The list
  holds own properties only: the names the code reads by name are inherited by no
  object, so \<open>js_get\<close> is the property read for them.
\<close>

type_synonym obj = "(string \<times> jsval) list"

definition js_get :: "obj \<Rightarrow> string \<Rightarrow> jsval" where
  "js_get ob k = (case map_of ob k of None \<Rightarrow> JUndefined | Some v \<Rightarrow> v)"

definition js_set :: "string \<Rightarrow> jsval \<Rightarrow> obj \<Rightarrow> obj" where
  "js_set k v ob = AList.update k v ob"

definition js_delete :: "string \<Rightarrow> obj \<Rightarrow> obj" where
  "js_delete k ob = AList.delete k ob"

definition has_key :: "obj \<Rightarrow> string \<Rightarrow> bool" where
  "has_key ob k = (map_of ob k \<noteq> None)"

text \<open>
  \<open>...(v && {k: v})\<close> inside an object literal: when \<open>v\<close> is falsy the spread adds
  nothing, otherwise it assigns \<open>k\<close>.
\<close>

definition spread_if :: "jsval \<Rightarrow> string \<Rightarrow> obj \<Rightarrow> obj" where
  "spread_if v k ob = (if truthy v then js_set k v ob else ob)"

section \<open>Record normalisation\<close>

text \<open>
  \<open>normalizeBook(book, key)\<close>: the object literal is built property by property, in
  the order the source writes them, so a later spread overwrites an earlier one.
\<close>

definition normalizeBook :: "obj \<Rightarrow> jsval \<Rightarrow> obj" where
  "normalizeBook book key =
     spread_if (js_get book ''updatedAsin'') ''updatedBookId''
    (spread_if (js_get book ''updatedBookId'') ''updatedBookId''
    (spread_if (js_get book ''rating'') ''rating''
    (spread_if (js_get book ''memo'') ''memo''
      [(''bookId'', js_or (js_or (js_get book ''bookId'') (js_get book ''asin'')) key),
       (''title'', js_get book ''title''),
       (''authors'', js_get book ''authors''),
       (''acquiredTime'', js_get book ''acquiredTime''),
       (''readStatus'', js_get book ''readStatus''),
       (''productImage'', js_get book ''productImage''),
       (''source'', js_get book ''source''),
       (''addedDate'', js_get book ''addedDate'')])))"

section \<open>The library and its manager\<close>

text \<open>
  \<open>this.library\<close> is the record sequence with its metadata object. The manager's state
  is the library together with what the operations touch outside it: the item the
  persistence key holds in \<open>localStorage\<close>, the number of writes made to it, and the
  number of clock readings taken so far (the k-th call of \<open>Date.now()\<close> returns
  \<open>clock k\<close>, for a clock every operation is given).
\<close>

record metadata =
  lastImportDate :: jsval
  totalBooks :: nat
  manuallyAdded :: nat
  importedFromKindle :: nat

record library =
  books :: "obj list"
  metadata :: metadata

record manager =
  library :: library
  localStorage :: "library option"
  writes :: nat
  ticks :: nat

text \<open>
  The errors the operations throw, by the place that throws them: an invalid identifier
  and an identifier already in the library (single add), a book that is not found (update
  and delete), a link from which no identifier is extracted, a failed catalogue request,
  a catalogue search without result, and the runtime's TypeError (a property read on
  \<open>null\<close>, a call of a missing method).
\<close>

datatype error =
    InvalidIdentifier
  | AlreadyInLibrary
  | BookNotFound
  | InvalidAmazonLink
  | InvalidGoogleBooksUrl
  | FetchFailed
  | NoSuchVolume
  | TypeError

definition empty_metadata :: metadata where
  "empty_metadata =
     \<lparr>lastImportDate = JNull, totalBooks = 0, manuallyAdded = 0, importedFromKindle = 0\<rparr>"

text \<open>The constructor: an empty library; the storage is whatever it held before.\<close>

definition new_BookManager :: "library option \<Rightarrow> manager" where
  "new_BookManager stored =
     \<lparr>library = \<lparr>books = [], metadata = empty_metadata\<rparr>,
      localStorage = stored, writes = 0, ticks = 0\<rparr>"

definition Date_now :: "(nat \<Rightarrow> int) \<Rightarrow> manager \<Rightarrow> int \<times> manager" where
  "Date_now clock s = (clock (ticks s), s\<lparr>ticks := Suc (ticks s)\<rparr>)"

text \<open>\<open>saveLibrary\<close>: one write of the whole library under the persistence key.\<close>

definition saveLibrary :: "manager \<Rightarrow> manager" where
  "saveLibrary s = s\<lparr>localStorage := Some (library s), writes := Suc (writes s)\<rparr>"

text \<open>\<open>Array.prototype.findIndex\<close>: the first index whose element satisfies the test.\<close>

fun findIndex :: "('a \<Rightarrow> bool) \<Rightarrow> 'a list \<Rightarrow> nat option" where
  "findIndex P [] = None"
| "findIndex P (x # xs) = (if P x then Some 0 else map_option Suc (findIndex P xs))"

definition has_bookId :: "jsval \<Rightarrow> obj \<Rightarrow> bool" where
  "has_bookId bookId book = (js_get book ''bookId'' = bookId)"

text \<open>\<open>books.filter(book => book.source === src).length\<close>\<close>

definition count_source :: "string \<Rightarrow> obj list \<Rightarrow> nat" where
  "count_source src bs = length (filter (\<lambda>book. js_get book ''source'' = JStr src) bs)"

definition set_books :: "obj list \<Rightarrow> manager \<Rightarrow> manager" where
  "set_books bs s = s\<lparr>library := (library s)\<lparr>books := bs\<rparr>\<rparr>"

definition set_metadata :: "metadata \<Rightarrow> manager \<Rightarrow> manager" where
  "set_metadata m s = s\<lparr>library := (library s)\<lparr>metadata := m\<rparr>\<rparr>"

text \<open>The three counters, assigned from the current records as the operations do.\<close>

definition recount_all :: "manager \<Rightarrow> manager" where
  "recount_all s =
     set_metadata ((metadata (library s))
       \<lparr>totalBooks := length (books (library s)),
        manuallyAdded := count_source ''manual_add'' (books (library s)),
        importedFromKindle := count_source ''kindle_import'' (books (library s))\<rparr>) s"

section \<open>Delete and update\<close>

text \<open>\<open>books.splice(i, 1)\<close>\<close>

definition splice1 :: "nat \<Rightarrow> 'a list \<Rightarrow> 'a list" where
  "splice1 i xs = take i xs @ drop (Suc i) xs"

definition deleteBook :: "jsval \<Rightarrow> bool \<Rightarrow> manager \<Rightarrow> manager \<times> (error + bool)" where
  "deleteBook bookId hardDelete s =
     (case findIndex (has_bookId bookId) (books (library s)) of
        None \<Rightarrow> (s, Inl BookNotFound)
      | Some bookIndex \<Rightarrow>
          (let s1 = (if hardDelete
                     then recount_all (set_books (splice1 bookIndex (books (library s))) s)
                     else s)
           in (saveLibrary s1, Inr True)))"

text \<open>
  The body of the \<open>forEach\<close> over \<open>Object.keys(updates)\<close>: a key whose value is
  \<open>undefined\<close> is deleted from the book, any other is assigned. The assignment
  \<open>book['__proto__'] = v\<close> is the one that writes no own property: it reaches the
  setter every record inherits from \<open>Object.prototype\<close>, which ignores a primitive
  value (with \<open>null\<close> it replaces the record's prototype, which this list of own
  properties does not record).
\<close>

definition apply_update :: "obj \<Rightarrow> string \<Rightarrow> obj \<Rightarrow> obj" where
  "apply_update updates key book =
     (if js_get updates key = JUndefined then js_delete key book
      else if key = ''__proto__'' then book
      else js_set key (js_get updates key) book)"

definition updateBook :: "jsval \<Rightarrow> obj \<Rightarrow> manager \<Rightarrow> manager \<times> (error + obj)" where
  "updateBook bookId updates s =
     (case findIndex (has_bookId bookId) (books (library s)) of
        None \<Rightarrow> (s, Inl BookNotFound)
      | Some bookIndex \<Rightarrow>
          (let book = fold (apply_update updates) (map fst updates)
                        (books (library s) ! bookIndex);
               s1 = set_books ((books (library s))[bookIndex := book]) s
           in (saveLibrary (recount_all s1), Inr book)))"

section \<open>Merge-with-update import\<close>

record importResults =
  total :: nat
  added :: nat
  updated :: nat
  skipped :: nat

definition shouldUpdateBook :: "obj \<Rightarrow> obj \<Rightarrow> bool" where
  "shouldUpdateBook existingBook newBook =
     (js_get existingBook ''acquiredTime'' \<noteq> js_get newBook ''acquiredTime'' \<or>
      js_get existingBook ''readStatus'' \<noteq> js_get newBook ''readStatus'' \<or>
      js_get existingBook ''title'' \<noteq> js_get newBook ''title'' \<or>
      js_get existingBook ''productImage'' \<noteq> js_get newBook ''productImage'')"

text \<open>
  \<open>Object.assign(existingBook, {title, authors, acquiredTime, readStatus, productImage})\<close>
  with the five values read from the candidate: each key is assigned, also when the
  candidate's value is \<open>undefined\<close>.
\<close>

definition assign_kindle_fields :: "obj \<Rightarrow> obj \<Rightarrow> obj" where
  "assign_kindle_fields kindleBook existingBook =
     js_set ''productImage'' (js_get kindleBook ''productImage'')
    (js_set ''readStatus'' (js_get kindleBook ''readStatus'')
    (js_set ''acquiredTime'' (js_get kindleBook ''acquiredTime'')
    (js_set ''authors'' (js_get kindleBook ''authors'')
    (js_set ''title'' (js_get kindleBook ''title'') existingBook))))"

text \<open>The identifier of a candidate: \<open>book.bookId || book.asin\<close>.\<close>

definition candidate_id :: "obj \<Rightarrow> jsval" where
  "candidate_id book = js_or (js_get book ''bookId'') (js_get book ''asin'')"

text \<open>
  The record a bulk import inserts:
  \<open>{...normalizeBook(book, bookId), source: 'kindle_import', addedDate: Date.now()}\<close>.
\<close>

definition kindle_record :: "obj \<Rightarrow> int \<Rightarrow> obj" where
  "kindle_record book now =
     js_set ''addedDate'' (JNum now)
    (js_set ''source'' (JStr ''kindle_import'') (normalizeBook book (candidate_id book)))"

text \<open>
  The body of the loop of \<open>importFromKindle\<close> for one candidate object. \<open>find\<close> returns
  the first record with the candidate's identifier and \<open>Object.assign\<close> mutates it in
  place: the record at the first matching index is replaced.
\<close>

definition importFromKindle_step ::
  "(nat \<Rightarrow> int) \<Rightarrow> obj \<Rightarrow> manager \<times> importResults \<Rightarrow> manager \<times> importResults" where
  "importFromKindle_step clock kindleBook sr =
     (let s = fst sr; importResults = snd sr in
      case findIndex (has_bookId (candidate_id kindleBook)) (books (library s)) of
        Some i \<Rightarrow>
          (let existingBook = books (library s) ! i in
           if shouldUpdateBook existingBook kindleBook
           then (set_books ((books (library s))
                    [i := assign_kindle_fields kindleBook existingBook]) s,
                 importResults\<lparr>updated := Suc (updated importResults)\<rparr>)
           else (s, importResults\<lparr>skipped := Suc (skipped importResults)\<rparr>))
      | None \<Rightarrow>
          (let now = fst (Date_now clock s); s1 = snd (Date_now clock s) in
           (set_books (books (library s1) @ [kindle_record kindleBook now]) s1,
            importResults\<lparr>added := Suc (added importResults)\<rparr>)))"

text \<open>
  The loop over the parsed array. An element is an object or \<open>null\<close> (\<open>None\<close>); reading
  \<open>kindleBook.bookId\<close> on \<open>null\<close> throws, and nothing in \<open>importFromKindle\<close> catches it.
  (Any other JSON value reads as an object without the fields the code looks at.)
\<close>

fun importFromKindle_loop ::
  "(nat \<Rightarrow> int) \<Rightarrow> obj option list \<Rightarrow> manager \<times> importResults
     \<Rightarrow> manager \<times> (error + importResults)" where
  "importFromKindle_loop clock [] sr = (fst sr, Inr (snd sr))"
| "importFromKindle_loop clock (None # rest) sr = (fst sr, Inl TypeError)"
| "importFromKindle_loop clock (Some kindleBook # rest) sr =
     importFromKindle_loop clock rest (importFromKindle_step clock kindleBook sr)"

text \<open>
  \<open>importFromKindle\<close>, given the array that the file or the request delivered: the loop,
  then the metadata (import date, total, bulk counter), then one save.
\<close>

definition importFromKindle ::
  "(nat \<Rightarrow> int) \<Rightarrow> obj option list \<Rightarrow> manager \<Rightarrow> manager \<times> (error + importResults)" where
  "importFromKindle clock kindleBooks s =
     (case importFromKindle_loop clock kindleBooks
             (s, \<lparr>total = length kindleBooks, added = 0, updated = 0, skipped = 0\<rparr>) of
        (s1, Inl e) \<Rightarrow> (s1, Inl e)
      | (s1, Inr importResults) \<Rightarrow>
          (let now = fst (Date_now clock s1); s2 = snd (Date_now clock s1);
               s3 = set_metadata ((metadata (library s2))
                      \<lparr>lastImportDate := JNum now,
                       totalBooks := length (books (library s2)),
                       importedFromKindle :=
                         count_source ''kindle_import'' (books (library s2))\<rparr>) s2
           in (saveLibrary s3, Inr importResults)))"

section \<open>Insert-only import\<close>

text \<open>
  The three lists \<open>importSelectedBooks\<close> fills. An entry of the error list keeps the
  candidate's title and identifier and, as its reason, the error that was caught.
\<close>

record failure =
  failed_title :: jsval
  failed_bookId :: jsval
  failed_reason :: error

record buckets =
  importedBooks :: "obj list"
  duplicateBooks :: "obj list"
  errorBooks :: "failure list"

record selectedResults = importResults +
  success :: bool
  imported :: "obj list"
  duplicates :: "obj list"
  errors :: "failure list"

text \<open>The reason string of a duplicate entry (``already present''), as UTF-8 bytes.\<close>

definition already_present :: string where
  "already_present =
     [CHR 0xE6, CHR 0x97, CHR 0xA2, CHR 0xE3, CHR 0x81, CHR 0xAB,
      CHR 0xE5, CHR 0xAD, CHR 0x98, CHR 0xE5, CHR 0x9C, CHR 0xA8]"

definition duplicate_entry :: "obj \<Rightarrow> jsval \<Rightarrow> obj" where
  "duplicate_entry book bookId =
     [(''title'', js_get book ''title''), (''bookId'', bookId),
      (''reason'', JStr already_present)]"

text \<open>
  The \<open>try\<close> block for one candidate. \<open>existingBookIds\<close> is the set built before the
  loop from the records then present; the block never adds to it. Reading \<open>book.bookId\<close>
  on a \<open>null\<close> candidate throws.
\<close>

definition importSelectedBooks_try ::
  "(nat \<Rightarrow> int) \<Rightarrow> jsval set \<Rightarrow> obj option \<Rightarrow> manager \<times> buckets
     \<Rightarrow> error + manager \<times> buckets" where
  "importSelectedBooks_try clock existingBookIds candidate sb =
     (case candidate of
        None \<Rightarrow> Inl TypeError
      | Some book \<Rightarrow>
          (let s = fst sb; b = snd sb; bookId = candidate_id book in
           if bookId \<in> existingBookIds
           then Inr (s, b\<lparr>duplicateBooks := duplicateBooks b @ [duplicate_entry book bookId]\<rparr>)
           else
             (let now = fst (Date_now clock s); s1 = snd (Date_now clock s);
                  bookToAdd = kindle_record book now
              in Inr (set_books (books (library s1) @ [bookToAdd]) s1,
                      b\<lparr>importedBooks := importedBooks b @ [bookToAdd]\<rparr>))))"

text \<open>
  The \<open>catch\<close> block: it reads \<open>book.title\<close> for the log line, which throws again on a
  \<open>null\<close> candidate; otherwise it appends the entry to the error list.
\<close>

definition importSelectedBooks_catch ::
  "obj option \<Rightarrow> error \<Rightarrow> manager \<times> buckets \<Rightarrow> error + manager \<times> buckets" where
  "importSelectedBooks_catch candidate e sb =
     (case candidate of
        None \<Rightarrow> Inl TypeError
      | Some book \<Rightarrow>
          Inr (fst sb, (snd sb)\<lparr>errorBooks := errorBooks (snd sb) @
                 [\<lparr>failed_title = js_get book ''title'',
                   failed_bookId = candidate_id book,
                   failed_reason = e\<rparr>]\<rparr>))"

fun importSelectedBooks_loop ::
  "(nat \<Rightarrow> int) \<Rightarrow> jsval set \<Rightarrow> obj option list \<Rightarrow> manager \<times> buckets
     \<Rightarrow> manager \<times> (error + buckets)" where
  "importSelectedBooks_loop clock ids [] sb = (fst sb, Inr (snd sb))"
| "importSelectedBooks_loop clock ids (candidate # rest) sb =
     (case importSelectedBooks_try clock ids candidate sb of
        Inr sb' \<Rightarrow> importSelectedBooks_loop clock ids rest sb'
      | Inl e \<Rightarrow>
          (case importSelectedBooks_catch candidate e sb of
             Inr sb' \<Rightarrow> importSelectedBooks_loop clock ids rest sb'
           | Inl e' \<Rightarrow> (fst sb, Inl e')))"

definition importSelectedBooks ::
  "(nat \<Rightarrow> int) \<Rightarrow> obj option list \<Rightarrow> manager \<Rightarrow> manager \<times> (error + selectedResults)" where
  "importSelectedBooks clock selectedBooks s =
     (let existingBookIds = set (map (\<lambda>book. js_get book ''bookId'') (books (library s)))
      in case importSelectedBooks_loop clock existingBookIds selectedBooks
                (s, \<lparr>importedBooks = [], duplicateBooks = [], errorBooks = []\<rparr>) of
           (s1, Inl e) \<Rightarrow> (s1, Inl e)
         | (s1, Inr b) \<Rightarrow>
             (let now = fst (Date_now clock s1); s2 = snd (Date_now clock s1);
                  s3 = set_metadata
                         \<lparr>lastImportDate = JNum now,
                          totalBooks = length (books (library s2)),
                          manuallyAdded = count_source ''manual_add'' (books (library s2)),
                          importedFromKindle =
                            count_source ''kindle_import'' (books (library s2))\<rparr> s2
              in (saveLibrary s3,
                  Inr \<lparr>total = length selectedBooks,
                       added = length (importedBooks b),
                       updated = 0,
                       skipped = length (duplicateBooks b) + length (errorBooks b),
                       success = True,
                       imported = importedBooks b,
                       duplicates = duplicateBooks b,
                       errors = errorBooks b\<rparr>)))"

section \<open>Search\<close>

text \<open>
  \<open>String.prototype.toLowerCase\<close> is the runtime's: the search is given it as the
  function \<open>toLowerCase\<close> from the bytes of a string to the bytes of its lower-cased
  form (it is not a map of single characters: a capital sigma is lowered by its place
  in the word).
\<close>

type_synonym lowering = "string \<Rightarrow> string"

text \<open>
  \<open>v.toLowerCase()\<close> for a field value: on a string it is the lowered string; on
  \<open>undefined\<close> and \<open>null\<close> the property read throws, on a number or a boolean the
  method is missing and the call throws.
\<close>

definition call_toLowerCase :: "lowering \<Rightarrow> jsval \<Rightarrow> error + string" where
  "call_toLowerCase toLowerCase v =
     (case v of JStr s \<Rightarrow> Inr (toLowerCase s) | _ \<Rightarrow> Inl TypeError)"

text \<open>\<open>s.includes(q)\<close>: \<open>q\<close> occurs in \<open>s\<close> at some position.\<close>

fun str_includes :: "string \<Rightarrow> string \<Rightarrow> bool" where
  "str_includes [] q = (q = [])"
| "str_includes (c # cs) q = (take (length q) (c # cs) = q \<or> str_includes cs q)"

text \<open>
  The callback of the filter in \<open>searchBooks\<close>; \<open>||\<close> does not evaluate the authors when
  the title matches.
\<close>

definition search_match :: "lowering \<Rightarrow> string \<Rightarrow> obj \<Rightarrow> error + bool" where
  "search_match toLowerCase lowercaseQuery book =
     (case call_toLowerCase toLowerCase (js_get book ''title'') of
        Inl e \<Rightarrow> Inl e
      | Inr t \<Rightarrow>
          if str_includes t lowercaseQuery then Inr True
          else (case call_toLowerCase toLowerCase (js_get book ''authors'') of
                  Inl e \<Rightarrow> Inl e
                | Inr a \<Rightarrow> Inr (str_includes a lowercaseQuery)))"

text \<open>
  \<open>Array.prototype.filter\<close> with a callback that may throw: the elements are tested in
  order and the first throw ends the call.
\<close>

fun js_filter :: "('a \<Rightarrow> error + bool) \<Rightarrow> 'a list \<Rightarrow> error + 'a list" where
  "js_filter p [] = Inr []"
| "js_filter p (x # xs) =
     (case p x of
        Inl e \<Rightarrow> Inl e
      | Inr keep \<Rightarrow>
          (case js_filter p xs of
             Inl e \<Rightarrow> Inl e
           | Inr ys \<Rightarrow> Inr (if keep then x # ys else ys)))"

definition searchBooks :: "lowering \<Rightarrow> string \<Rightarrow> manager \<Rightarrow> error + obj list" where
  "searchBooks toLowerCase query s =
     js_filter (search_match toLowerCase (toLowerCase query)) (books (library s))"

section \<open>Single additions\<close>

text \<open>The placeholder strings of the source, as UTF-8 bytes.\<close>

definition title_unset :: string where
  "title_unset =
     [CHR 0xE3, CHR 0x82, CHR 0xBF, CHR 0xE3, CHR 0x82, CHR 0xA4, CHR 0xE3, CHR 0x83,
      CHR 0x88, CHR 0xE3, CHR 0x83, CHR 0xAB, CHR 0xE6, CHR 0x9C, CHR 0xAA, CHR 0xE8,
      CHR 0xA8, CHR 0xAD, CHR 0xE5, CHR 0xAE, CHR 0x9A]"

definition authors_unset :: string where
  "authors_unset =
     [CHR 0xE8, CHR 0x91, CHR 0x97, CHR 0xE8, CHR 0x80, CHR 0x85, CHR 0xE6, CHR 0x9C,
      CHR 0xAA, CHR 0xE8, CHR 0xA8, CHR 0xAD, CHR 0xE5, CHR 0xAE, CHR 0x9A]"

definition title_not_fetched :: string where
  "title_not_fetched =
     [CHR 0xE3, CHR 0x82, CHR 0xBF, CHR 0xE3, CHR 0x82, CHR 0xA4, CHR 0xE3, CHR 0x83,
      CHR 0x88, CHR 0xE3, CHR 0x83, CHR 0xAB, CHR 0xE6, CHR 0x9C, CHR 0xAA, CHR 0xE5,
      CHR 0x8F, CHR 0x96, CHR 0xE5, CHR 0xBE, CHR 0x97]"

definition authors_not_fetched :: string where
  "authors_not_fetched =
     [CHR 0xE8, CHR 0x91, CHR 0x97, CHR 0xE8, CHR 0x80, CHR 0x85, CHR 0xE6, CHR 0x9C,
      CHR 0xAA, CHR 0xE5, CHR 0x8F, CHR 0x96, CHR 0xE5, CHR 0xBE, CHR 0x97]"

text \<open>
  \<open>isValidASIN\<close> on a string: \<open>/^[A-Z0-9]{10}$/\<close>, ten characters, each an upper-case
  letter or a digit.
\<close>

definition asin_char :: "char \<Rightarrow> bool" where
  "asin_char c =
     ((65 \<le> (of_char c :: nat) \<and> (of_char c :: nat) \<le> 90) \<or>
      (48 \<le> (of_char c :: nat) \<and> (of_char c :: nat) \<le> 57))"

definition isValidASIN :: "string \<Rightarrow> bool" where
  "isValidASIN s = (length s = 10 \<and> list_all asin_char s)"

definition amazon_image_url :: "string \<Rightarrow> string" where
  "amazon_image_url bookId =
     ''https://images-na.ssl-images-amazon.com/images/P/'' @ bookId @ ''.01.L.jpg''"

text \<open>
  \<open>s.trim().length > 0\<close> fails exactly when \<open>s\<close> consists of white space and line
  terminators only. On the UTF-8 bytes: the ASCII ones (tab, line feed, vertical tab,
  form feed, carriage return, space) and the encodings of U+00A0, U+1680, U+2000 to
  U+200A, U+2028, U+2029, U+202F, U+205F, U+3000 and U+FEFF.
\<close>

definition ascii_space :: "nat \<Rightarrow> bool" where
  "ascii_space c = (c = 9 \<or> c = 10 \<or> c = 11 \<or> c = 12 \<or> c = 13 \<or> c = 32)"

definition space3 :: "nat list \<Rightarrow> bool" where
  "space3 bs =
     (bs = [0xE1, 0x9A, 0x80] \<or>
      (take 2 bs = [0xE2, 0x80] \<and> length bs = 3 \<and>
         (bs ! 2 \<le> 0x8A \<and> 0x80 \<le> bs ! 2 \<or> bs ! 2 = 0xA8 \<or> bs ! 2 = 0xA9 \<or> bs ! 2 = 0xAF)) \<or>
      bs = [0xE2, 0x81, 0x9F] \<or> bs = [0xE3, 0x80, 0x80] \<or> bs = [0xEF, 0xBB, 0xBF])"

fun only_spaces :: "nat list \<Rightarrow> bool" where
  "only_spaces [] = True"
| "only_spaces (c # cs) =
     (if ascii_space c then only_spaces cs
      else if take 2 (c # cs) = [0xC2, 0xA0] then only_spaces (drop 1 cs)
      else if space3 (take 3 (c # cs)) then only_spaces (drop 2 cs)
      else False)"

definition trim_is_empty :: "string \<Rightarrow> bool" where
  "trim_is_empty s = only_spaces (map of_char s)"

text \<open>
  \<open>isValidBookId(bookId)\<close> is \<open>bookId && bookId.trim().length > 0\<close>: a falsy value is
  returned as it is, a string gives the comparison, and any other truthy value has no
  \<open>trim\<close> method, so the call throws.
\<close>

definition isValidBookId :: "jsval \<Rightarrow> error + jsval" where
  "isValidBookId bookId =
     (if \<not> truthy bookId then Inr bookId
      else case bookId of
             JStr s \<Rightarrow> Inr (JBool (\<not> trim_is_empty s))
           | _ \<Rightarrow> Inl TypeError)"

text \<open>
  \<open>addBookManually(bookData)\<close>. The second clock reading of the source,
  \<open>bookData.acquiredTime || Date.now()\<close>, is taken only when the given value is falsy.
  When the default image is computed the identifier is a string (anything else has
  thrown in \<open>isValidBookId\<close>).
\<close>

definition addBookManually ::
  "(nat \<Rightarrow> int) \<Rightarrow> obj \<Rightarrow> manager \<Rightarrow> manager \<times> (error + obj)" where
  "addBookManually clock bookData s =
     (let bookId = js_or (js_get bookData ''bookId'') (js_get bookData ''asin'') in
      if \<not> truthy bookId then (s, Inl InvalidIdentifier)
      else case isValidBookId bookId of
        Inl e \<Rightarrow> (s, Inl e)
      | Inr valid \<Rightarrow>
          if \<not> truthy valid then (s, Inl InvalidIdentifier)
          else if find (has_bookId bookId) (books (library s)) \<noteq> None
          then (s, Inl AlreadyInLibrary)
          else
            (let acquired = (if truthy (js_get bookData ''acquiredTime'')
                             then js_get bookData ''acquiredTime''
                             else JNum (fst (Date_now clock s)));
                 s1 = (if truthy (js_get bookData ''acquiredTime'') then s
                       else snd (Date_now clock s));
                 image = (if truthy (js_get bookData ''productImage'')
                          then js_get bookData ''productImage''
                          else if isValidASIN (string_of bookId)
                          then JStr (amazon_image_url (string_of bookId)) else JNull);
                 newBook =
                   [(''bookId'', bookId),
                    (''title'', js_or (js_get bookData ''title'') (JStr title_unset)),
                    (''authors'', js_or (js_get bookData ''authors'') (JStr authors_unset)),
                    (''acquiredTime'', acquired),
                    (''readStatus'', js_or (js_get bookData ''readStatus'') (JStr ''UNKNOWN'')),
                    (''productImage'', image),
                    (''source'', js_or (js_get bookData ''source'') (JStr ''manual_add'')),
                    (''addedDate'', JNum (fst (Date_now clock s1)))];
                 s2 = snd (Date_now clock s1);
                 s3 = set_books (books (library s2) @ [newBook]) s2;
                 s4 = set_metadata ((metadata (library s3))
                        \<lparr>totalBooks := length (books (library s3)),
                         manuallyAdded := count_source ''manual_add'' (books (library s3))\<rparr>) s3
             in (saveLibrary s4, Inr newBook)))"

definition clearAllBooks :: "manager \<Rightarrow> manager \<times> (error + bool)" where
  "clearAllBooks s =
     (saveLibrary (set_metadata empty_metadata (set_books [] s)), Inr True)"

section \<open>Additions by link\<close>

text \<open>
  The regular expressions of the two link extractors, by name, in the order of the
  source. The regular-expression engine is the runtime's: \<open>url.match(pattern)\<close> is a
  parameter, giving the first capture group of the match, or \<open>None\<close> when the pattern
  does not match.
\<close>

datatype pattern =
    AmazonJpDp | AmazonJpPathDp | AmazonComDp | AmazonComPathDp | SlashCode
  | GoogleIdParam | GoogleEdition

type_synonym matcher = "pattern \<Rightarrow> string \<Rightarrow> string option"

fun first_match :: "matcher \<Rightarrow> pattern list \<Rightarrow> string \<Rightarrow> string option" where
  "first_match m [] url = None"
| "first_match m (p # ps) url =
     (case m p url of Some g \<Rightarrow> Some g | None \<Rightarrow> first_match m ps url)"

definition extractASINFromUrl :: "matcher \<Rightarrow> string \<Rightarrow> string option" where
  "extractASINFromUrl m url =
     first_match m [AmazonJpDp, AmazonJpPathDp, AmazonComDp, AmazonComPathDp, SlashCode] url"

definition extractVolumeIdFromGoogleUrl :: "matcher \<Rightarrow> string \<Rightarrow> string option" where
  "extractVolumeIdFromGoogleUrl m url = first_match m [GoogleIdParam, GoogleEdition] url"

text \<open>
  What a catalogue request delivers: the request fails (the fetch rejects, the reply
  is not JSON or not ok, the first item of a search has no \<open>volumeInfo\<close>), or it
  replies. Of a volume the code reads the title, the author list and the image links.
\<close>

record volumeInfo =
  vol_title :: jsval
  vol_authors :: "string list option"
  vol_imageLinks :: "obj option"

datatype 'a reply = Failed | Replied 'a

text \<open>\<open>authors.join(', ')\<close>\<close>

fun join_comma :: "string list \<Rightarrow> string" where
  "join_comma [] = []"
| "join_comma [a] = a"
| "join_comma (a # b # rest) = a @ '', '' @ join_comma (b # rest)"

text \<open>The record \<open>fetchFromGoogleBooks\<close> builds from the first item of a search reply.\<close>

definition searched_record :: "string \<Rightarrow> volumeInfo \<Rightarrow> int \<Rightarrow> obj" where
  "searched_record asin book now =
     [(''bookId'', JStr asin),
      (''title'', js_or (vol_title book) (JStr title_not_fetched)),
      (''authors'', (case vol_authors book of
                       Some names \<Rightarrow> JStr (join_comma names)
                     | None \<Rightarrow> JStr authors_not_fetched)),
      (''acquiredTime'', JNum now),
      (''readStatus'', JStr ''UNKNOWN''),
      (''productImage'', (case vol_imageLinks book of
                            Some links \<Rightarrow>
                              js_or (js_or (js_get links ''large'') (js_get links ''medium''))
                                (js_get links ''thumbnail'')
                          | None \<Rightarrow> JStr (amazon_image_url asin)))]"

text \<open>
  \<open>fetchFromGoogleBooks(asin)\<close>, given the items of the ISBN search and of the general
  search (the second request is made only when the first has no item).
\<close>

definition fetchFromGoogleBooks ::
  "(nat \<Rightarrow> int) \<Rightarrow> string \<Rightarrow> volumeInfo list reply \<Rightarrow> volumeInfo list reply \<Rightarrow> manager
     \<Rightarrow> manager \<times> (error + obj)" where
  "fetchFromGoogleBooks clock asin r1 r2 s =
     (case r1 of
        Failed \<Rightarrow> (s, Inl FetchFailed)
      | Replied (book # others) \<Rightarrow>
          (snd (Date_now clock s), Inr (searched_record asin book (fst (Date_now clock s))))
      | Replied [] \<Rightarrow>
          (case r2 of
             Failed \<Rightarrow> (s, Inl FetchFailed)
           | Replied (book # others) \<Rightarrow>
               (snd (Date_now clock s),
                Inr (searched_record asin book (fst (Date_now clock s))))
           | Replied [] \<Rightarrow> (s, Inl NoSuchVolume)))"

definition generateSmartBookData :: "(nat \<Rightarrow> int) \<Rightarrow> string \<Rightarrow> manager \<Rightarrow> manager \<times> obj" where
  "generateSmartBookData clock bookId s =
     (snd (Date_now clock s),
      [(''bookId'', JStr bookId),
       (''title'', JStr []),
       (''authors'', JStr []),
       (''acquiredTime'', JNum (fst (Date_now clock s))),
       (''readStatus'', JStr ''UNKNOWN''),
       (''productImage'',
          (if isValidASIN bookId then JStr (amazon_image_url bookId) else JNull))])"

text \<open>
  \<open>fetchBookDataFromAmazon(asin)\<close>: the catalogue's record when it has a usable title,
  the generated one otherwise, also when the request has thrown.
\<close>

definition fetchBookDataFromAmazon ::
  "(nat \<Rightarrow> int) \<Rightarrow> string \<Rightarrow> volumeInfo list reply \<Rightarrow> volumeInfo list reply \<Rightarrow> manager
     \<Rightarrow> manager \<times> obj" where
  "fetchBookDataFromAmazon clock asin r1 r2 s =
     (case fetchFromGoogleBooks clock asin r1 r2 s of
        (s1, Inr googleBooksData) \<Rightarrow>
          if truthy (js_get googleBooksData ''title'')
             \<and> js_get googleBooksData ''title'' \<noteq> JStr title_not_fetched
          then (s1, googleBooksData)
          else generateSmartBookData clock asin s1
      | (s1, Inl e) \<Rightarrow> generateSmartBookData clock asin s1)"

definition addBookFromAmazonUrl ::
  "(nat \<Rightarrow> int) \<Rightarrow> matcher \<Rightarrow> volumeInfo list reply \<Rightarrow> volumeInfo list reply \<Rightarrow> string
     \<Rightarrow> manager \<Rightarrow> manager \<times> (error + obj)" where
  "addBookFromAmazonUrl clock m r1 r2 url s =
     (case extractASINFromUrl m url of
        None \<Rightarrow> (s, Inl InvalidAmazonLink)
      | Some asin \<Rightarrow>
          if asin = [] then (s, Inl InvalidAmazonLink)
          else addBookManually clock
                 (snd (fetchBookDataFromAmazon clock asin r1 r2 s))
                 (fst (fetchBookDataFromAmazon clock asin r1 r2 s)))"

text \<open>\<open>getBestGoogleBooksImage(imageLinks)\<close>\<close>

definition getBestGoogleBooksImage :: "obj option \<Rightarrow> jsval" where
  "getBestGoogleBooksImage imageLinks =
     (case imageLinks of
        None \<Rightarrow> JNull
      | Some links \<Rightarrow>
          js_or (js_or (js_or (js_or (js_get links ''extraLarge'') (js_get links ''large''))
                   (js_get links ''medium'')) (js_get links ''small''))
            (js_get links ''thumbnail''))"

text \<open>
  \<open>fetchFromGoogleBooksById(volumeId)\<close>, given the reply: a failed request throws, a
  reply without \<open>volumeInfo\<close> throws on the first property read.
\<close>

definition fetchFromGoogleBooksById ::
  "(nat \<Rightarrow> int) \<Rightarrow> string \<Rightarrow> volumeInfo option reply \<Rightarrow> manager
     \<Rightarrow> manager \<times> (error + obj)" where
  "fetchFromGoogleBooksById clock volumeId r s =
     (case r of
        Failed \<Rightarrow> (s, Inl FetchFailed)
      | Replied None \<Rightarrow> (s, Inl TypeError)
      | Replied (Some info) \<Rightarrow>
          (let s1 = snd (Date_now clock s); s2 = snd (Date_now clock s1) in
           (s2,
            Inr [(''bookId'', JStr volumeId),
                 (''title'', js_or (vol_title info) (JStr title_not_fetched)),
                 (''authors'', (case vol_authors info of
                                  Some names \<Rightarrow>
                                    js_or (JStr (join_comma names)) (JStr authors_not_fetched)
                                | None \<Rightarrow> JStr authors_not_fetched)),
                 (''productImage'', getBestGoogleBooksImage (vol_imageLinks info)),
                 (''source'', JStr ''google_books''),
                 (''acquiredTime'', JNum (fst (Date_now clock s))),
                 (''readStatus'', JStr ''UNKNOWN''),
                 (''addedDate'', JNum (fst (Date_now clock s1)))])))"

definition addBookFromGoogleBooks ::
  "(nat \<Rightarrow> int) \<Rightarrow> matcher \<Rightarrow> volumeInfo option reply \<Rightarrow> string \<Rightarrow> manager
     \<Rightarrow> manager \<times> (error + obj)" where
  "addBookFromGoogleBooks clock m r urlOrId s =
     (let extracted =
            (if str_includes urlOrId ''google.com'' \<or> str_includes urlOrId ''play.google.com''
             then (case extractVolumeIdFromGoogleUrl m urlOrId of
                     None \<Rightarrow> None
                   | Some v \<Rightarrow> if v = [] then None else Some v)
             else Some urlOrId)
      in case extracted of
        None \<Rightarrow> (s, Inl InvalidGoogleBooksUrl)
      | Some volumeId \<Rightarrow>
          if find (has_bookId (JStr volumeId)) (books (library s)) \<noteq> None
          then (s, Inl AlreadyInLibrary)
          else
            (case fetchFromGoogleBooksById clock volumeId r s of
               (s1, Inl e) \<Rightarrow> (s1, Inl e)
             | (s1, Inr bookData) \<Rightarrow>
                 (let s2 = set_books (books (library s1) @ [bookData]) s1;
                      s3 = set_metadata ((metadata (library s2))
                             \<lparr>totalBooks := length (books (library s2))\<rparr>) s2
                  in (saveLibrary s3, Inr bookData))))"

section \<open>Sequences of operations\<close>

text \<open>
  The mutating operations with their arguments and with what the outside world
  delivers to them (the replies of the catalogue requests). \<open>exec\<close> is the state an
  operation leaves, whether it returns or throws.
\<close>

datatype operation =
    ImportFromKindle "obj option list"
  | ImportSelectedBooks "obj option list"
  | AddBookManually obj
  | AddBookFromAmazonUrl string "volumeInfo list reply" "volumeInfo list reply"
  | AddBookFromGoogleBooks string "volumeInfo option reply"
  | UpdateBook jsval obj
  | DeleteBook jsval bool
  | ClearAllBooks

fun exec :: "(nat \<Rightarrow> int) \<Rightarrow> matcher \<Rightarrow> operation \<Rightarrow> manager \<Rightarrow> manager" where
  "exec clock m (ImportFromKindle batch) s = fst (importFromKindle clock batch s)"
| "exec clock m (ImportSelectedBooks batch) s = fst (importSelectedBooks clock batch s)"
| "exec clock m (AddBookManually bookData) s = fst (addBookManually clock bookData s)"
| "exec clock m (AddBookFromAmazonUrl url r1 r2) s =
     fst (addBookFromAmazonUrl clock m r1 r2 url s)"
| "exec clock m (AddBookFromGoogleBooks urlOrId r) s =
     fst (addBookFromGoogleBooks clock m r urlOrId s)"
| "exec clock m (UpdateBook bookId updates) s = fst (updateBook bookId updates s)"
| "exec clock m (DeleteBook bookId hardDelete) s = fst (deleteBook bookId hardDelete s)"
| "exec clock m ClearAllBooks s = fst (clearAllBooks s)"

definition run :: "(nat \<Rightarrow> int) \<Rightarrow> matcher \<Rightarrow> operation list \<Rightarrow> manager \<Rightarrow> manager" where
  "run clock m ops s = fold (exec clock m) ops s"

section \<open>Notions used in the statements\<close>

text \<open>
  Notions for the re-import property. A candidate is settled in a record sequence when
  the first record carrying its identifier exists and agrees with it on the four
  compared fields. Two candidates are compatible when, if they resolve to the same
  identifier, they agree on the four compared fields; a batch is consistent when its
  candidates are pairwise compatible.
\<close>

definition settled :: "obj list \<Rightarrow> obj \<Rightarrow> bool" where
  "settled bs c =
     (case findIndex (has_bookId (candidate_id c)) bs of
        None \<Rightarrow> False
      | Some i \<Rightarrow> \<not> shouldUpdateBook (bs ! i) c)"

definition same_compared :: "obj \<Rightarrow> obj \<Rightarrow> bool" where
  "same_compared c c' =
     (js_get c ''acquiredTime'' = js_get c' ''acquiredTime'' \<and>
      js_get c ''readStatus'' = js_get c' ''readStatus'' \<and>
      js_get c ''title'' = js_get c' ''title'' \<and>
      js_get c ''productImage'' = js_get c' ''productImage'')"

definition compatible :: "obj \<Rightarrow> obj \<Rightarrow> bool" where
  "compatible c c' = (candidate_id c = candidate_id c' \<longrightarrow> same_compared c c')"

definition batch_consistent :: "obj list \<Rightarrow> bool" where
  "batch_consistent cs = list_all (\<lambda>c. list_all (compatible c) cs) cs"

text \<open>
  What the search computes, in words: the lowered text includes the lowered query.
\<close>

definition lowered_includes :: "lowering \<Rightarrow> string \<Rightarrow> string \<Rightarrow> bool" where
  "lowered_includes toLowerCase txt q =
     (\<exists>pre suf. toLowerCase txt = pre @ toLowerCase q @ suf)"

text \<open>
  The property as the specification words it, on ASCII text: two characters are the
  same letter when they are equal or are the capital and the small form of one of the
  letters A to Z; a text contains the query case-insensitively when some stretch of the
  text matches the query letter by letter. A record is searchable when its title and
  its authors are strings.
\<close>

definition is_capital :: "char \<Rightarrow> bool" where
  "is_capital c = (65 \<le> (of_char c :: nat) \<and> (of_char c :: nat) \<le> 90)"

definition same_letter :: "char \<Rightarrow> char \<Rightarrow> bool" where
  "same_letter c d =
     (c = d \<or> (is_capital c \<and> (of_char d :: nat) = of_char c + 32)
            \<or> (is_capital d \<and> (of_char c :: nat) = of_char d + 32))"

definition contains_ignoring_case :: "string \<Rightarrow> string \<Rightarrow> bool" where
  "contains_ignoring_case txt q =
     (\<exists>pre w suf. txt = pre @ w @ suf \<and> list_all2 same_letter w q)"

text \<open>
  What every runtime's lower-casing does on ASCII text: it maps the letters A to Z to
  a to z and keeps every other character.
\<close>

definition ascii_lower :: "char \<Rightarrow> char" where
  "ascii_lower c = (if is_capital c then char_of (of_char c + 32 :: nat) else c)"

definition is_ascii :: "string \<Rightarrow> bool" where
  "is_ascii s = list_all (\<lambda>c. (of_char c :: nat) < 128) s"

definition lowers_ascii :: "lowering \<Rightarrow> bool" where
  "lowers_ascii toLowerCase = (\<forall>s. is_ascii s \<longrightarrow> toLowerCase s = map ascii_lower s)"

definition searchable :: "obj \<Rightarrow> bool" where
  "searchable book = (is_string (js_get book ''title'') \<and> is_string (js_get book ''authors''))"

text \<open>The identifiers of the records, in collection order.\<close>

definition bookIds :: "manager \<Rightarrow> jsval list" where
  "bookIds s = map (\<lambda>book. js_get book ''bookId'') (books (library s))"

text \<open>The identifiers of the object candidates of a batch.\<close>

fun batch_ids :: "obj option list \<Rightarrow> jsval list" where
  "batch_ids [] = []"
| "batch_ids (None # rest) = batch_ids rest"
| "batch_ids (Some c # rest) = candidate_id c # batch_ids rest"

text \<open>
  The operations the uniqueness property covers: an update whose map does not name
  \<open>bookId\<close>, an insert-only batch whose identifiers are pairwise distinct, and every
  other operation.
\<close>

fun keeps_ids :: "operation \<Rightarrow> bool" where
  "keeps_ids (UpdateBook bookId updates) = (''bookId'' \<notin> fst ` set updates)"
| "keeps_ids (ImportSelectedBooks batch) = distinct (batch_ids batch)"
| "keeps_ids other = True"

text \<open>
  The counters agree with the records: \<open>totalBooks\<close> is the number of records,
  \<open>manuallyAdded\<close> and \<open>importedFromKindle\<close> the numbers of records of the two sources.
\<close>

definition counts_consistent :: "manager \<Rightarrow> bool" where
  "counts_consistent s =
     (totalBooks (metadata (library s)) = length (books (library s)) \<and>
      manuallyAdded (metadata (library s)) = count_source ''manual_add'' (books (library s)) \<and>
      importedFromKindle (metadata (library s))
        = count_source ''kindle_import'' (books (library s)))"

text \<open>
  The operations after which the counters are assigned consistently: every operation
  except a manual add whose data names the source \<open>kindle_import\<close>, and except a
  batch import with a \<open>null\<close> candidate (which throws before the metadata is assigned).
\<close>

fun assigns_counters :: "operation \<Rightarrow> bool" where
  "assigns_counters (AddBookManually bookData) =
     (js_get bookData ''source'' \<noteq> JStr ''kindle_import'')"
| "assigns_counters (ImportFromKindle batch) = list_all (\<lambda>c. c \<noteq> None) batch"
| "assigns_counters (ImportSelectedBooks batch) = list_all (\<lambda>c. c \<noteq> None) batch"
| "assigns_counters other = True"

section \<open>Concrete libraries, candidates and operations\<close>

text \<open>A library holding one manually added record, for the concrete checks below.\<close>

definition book_one :: obj where
  "book_one =
     [(''bookId'', JStr ''B000000001''), (''title'', JStr ''T1''), (''authors'', JStr ''A1''),
      (''acquiredTime'', JNum 50), (''readStatus'', JStr ''UNKNOWN''),
      (''productImage'', JNull), (''source'', JStr ''manual_add''),
      (''addedDate'', JNum 1000)]"

definition shelf_one :: manager where
  "shelf_one =
     \<lparr>library = \<lparr>books = [book_one],
        metadata = \<lparr>lastImportDate = JNull, totalBooks = 1, manuallyAdded = 1,
                     importedFromKindle = 0\<rparr>\<rparr>,
      localStorage = None, writes = 0, ticks = 2\<rparr>"

text \<open>Two candidates with one identifier and different titles, for the concrete checks.\<close>

definition cand_a :: obj where
  "cand_a = [(''asin'', JStr ''B000000001''), (''title'', JStr ''A'')]"

definition cand_b :: obj where
  "cand_b = [(''asin'', JStr ''B000000001''), (''title'', JStr ''B'')]"

definition cand_c :: obj where
  "cand_c = [(''bookId'', JStr ''B000000002''), (''title'', JStr ''C'')]"

text \<open>
  Two candidates for the record of \<open>shelf_one\<close>: one that differs from it in
  \<open>acquiredTime\<close>, \<open>readStatus\<close> (and \<open>authors\<close>), one that agrees on the four compared
  fields.
\<close>

definition cand_changed :: obj where
  "cand_changed =
     [(''bookId'', JStr ''B000000001''), (''title'', JStr ''T1''),
      (''authors'', JStr ''Other''), (''acquiredTime'', JNum 100),
      (''readStatus'', JStr ''READ''), (''productImage'', JNull)]"

definition cand_same :: obj where
  "cand_same =
     [(''asin'', JStr ''B000000001''), (''title'', JStr ''T1''),
      (''authors'', JStr ''Other''), (''acquiredTime'', JNum 50),
      (''readStatus'', JStr ''UNKNOWN''), (''productImage'', JNull)]"

definition no_results :: importResults where
  "no_results = \<lparr>total = 1, added = 0, updated = 0, skipped = 0\<rparr>"

text \<open>A record as \<open>normalizeBook\<close> returns it for a raw record that has only an identifier.\<close>

definition untitled :: obj where
  "untitled = normalizeBook [(''asin'', JStr ''B000000003'')] JNull"

text \<open>
  A record whose title is the two Greek capitals alpha and sigma, and the lower-casing
  of the runtime on the strings of this example: the sigma that ends the word becomes
  the final small sigma, the sigma alone becomes the small sigma.
\<close>

definition capital_alpha :: string where
  "capital_alpha = [CHR 0xCE, CHR 0x91]"

definition capital_sigma :: string where
  "capital_sigma = [CHR 0xCE, CHR 0xA3]"

definition sigma_book :: obj where
  "sigma_book =
     [(''bookId'', JStr ''B000000004''), (''title'', JStr (capital_alpha @ capital_sigma)),
      (''authors'', JStr ''x'')]"

definition lower_with_final_sigma :: lowering where
  "lower_with_final_sigma s =
     (if s = capital_alpha @ capital_sigma then [CHR 0xCE, CHR 0xB1, CHR 0xCF, CHR 0x82]
      else if s = capital_sigma then [CHR 0xCF, CHR 0x83]
      else map ascii_lower s)"

text \<open>A sequence of operations of every kind, for the concrete check.\<close>

definition sample_matcher :: matcher where
  "sample_matcher p url = (if p = SlashCode then Some ''B000000007'' else None)"

definition sample_ops :: "operation list" where
  "sample_ops =
     [ImportFromKindle [Some cand_a, Some cand_b],
      ImportSelectedBooks [Some cand_a, Some cand_c],
      AddBookManually [(''bookId'', JStr ''B000000005''), (''title'', JStr ''T5'')],
      AddBookFromAmazonUrl ''https://www.amazon.co.jp/x/B000000007'' Failed Failed,
      AddBookFromGoogleBooks ''Ab3_Xy9-12''
        (Replied (Some \<lparr>vol_title = JStr ''G'', vol_authors = Some [''a'', ''b''],
                         vol_imageLinks = None\<rparr>)),
      UpdateBook (JStr ''B000000002'') [(''memo'', JStr ''m''), (''rating'', JUndefined)],
      DeleteBook (JStr ''B000000001'') True,
      DeleteBook (JStr ''B000000005'') False]"

section \<open>Facts about objects\<close>

lemma js_get_set: "js_get (js_set k v ob) k' = (if k' = k then v else js_get ob k')"
  by (simp add: js_get_def js_set_def update_conv')

lemma js_get_delete:
  "js_get (js_delete k ob) k' = (if k' = k then JUndefined else js_get ob k')"
  by (simp add: js_get_def js_delete_def delete_conv')

lemma has_key_set: "has_key (js_set k v ob) k' = (k' = k \<or> has_key ob k')"
  by (simp add: has_key_def js_set_def update_conv')

lemma has_key_delete: "has_key (js_delete k ob) k' = (k' \<noteq> k \<and> has_key ob k')"
  by (simp add: has_key_def js_delete_def delete_conv')

lemma js_get_spread_if:
  "js_get (spread_if v k ob) k' = (if k' = k \<and> truthy v then v else js_get ob k')"
  by (simp add: spread_if_def js_get_set)

lemma js_get_Cons [simp]:
  "js_get ((k, v) # ob) k' = (if k' = k then v else js_get ob k')"
  by (simp add: js_get_def)

lemma js_get_Nil [simp]: "js_get [] k = JUndefined"
  by (simp add: js_get_def)

section \<open>Normalisation of the superseding identifier\<close>

lemma normalizeBook_bookId:
  "js_get (normalizeBook book key) ''bookId'' =
     js_or (js_or (js_get book ''bookId'') (js_get book ''asin'')) key"
  by (simp add: normalizeBook_def js_get_spread_if)

lemma normalizeBook_updatedBookId:
  "js_get (normalizeBook book key) ''updatedBookId'' =
     (if truthy (js_get book ''updatedAsin'') then js_get book ''updatedAsin''
      else if truthy (js_get book ''updatedBookId'') then js_get book ''updatedBookId''
      else JUndefined)"
  by (simp add: normalizeBook_def js_get_spread_if)

text \<open>
  C6. A raw record carrying both the current-schema field \<open>updatedBookId\<close> and the
  legacy alias \<open>updatedAsin\<close>: the spread of the alias is written last in the literal,
  so the normalised record carries the legacy value, not the current-schema one.
\<close>

theorem normalizeBook_legacy_alias_wins:
  "js_get (normalizeBook
      [(''bookId'', JStr ''B000000001''), (''title'', JStr ''T''),
       (''updatedBookId'', JStr ''B00NEW0001''), (''updatedAsin'', JStr ''B00OLD0001'')]
      JNull) ''updatedBookId'' = JStr ''B00OLD0001''"
  by (simp add: normalizeBook_def js_get_spread_if)

section \<open>Facts about lookup by identifier\<close>

lemma findIndex_None_iff: "findIndex P xs = None \<longleftrightarrow> (\<forall>x\<in>set xs. \<not> P x)"
  by (induction xs) auto

lemma findIndex_Some_bound: "findIndex P xs = Some i \<Longrightarrow> i < length xs \<and> P (xs ! i)"
proof (induction xs arbitrary: i)
  case Nil
  then show ?case by simp
next
  case (Cons x xs)
  then show ?case by (cases "P x") auto
qed

lemma findIndex_Some_first: "findIndex P xs = Some i \<Longrightarrow> j < i \<Longrightarrow> \<not> P (xs ! j)"
proof (induction xs arbitrary: i j)
  case Nil
  then show ?case by simp
next
  case (Cons x xs)
  then show ?case by (cases "P x"; cases j) auto
qed

section \<open>Deleting\<close>

text \<open>
  C9. For a bookId present in the collection, \<open>deleteBook(bookId, false)\<close> returns true
  and leaves the library (records and metadata) as it was, while one write of that
  library is made to the storage; for a bookId that is absent, \<open>deleteBook\<close> throws the
  not-found error in either mode and changes nothing, storage included.
\<close>

theorem deleteBook_soft_noop_and_missing:
  "((\<exists>book\<in>set (books (library s)). js_get book ''bookId'' = bookId) \<longrightarrow>
      deleteBook bookId False s =
        (s\<lparr>localStorage := Some (library s), writes := Suc (writes s)\<rparr>, Inr True)
      \<and> library (fst (deleteBook bookId False s)) = library s)
   \<and> ((\<forall>book\<in>set (books (library s)). js_get book ''bookId'' \<noteq> bookId) \<longrightarrow>
      deleteBook bookId hardDelete s = (s, Inl BookNotFound))"
proof (intro conjI impI)
  assume "\<exists>book\<in>set (books (library s)). js_get book ''bookId'' = bookId"
  then have "findIndex (has_bookId bookId) (books (library s)) \<noteq> None"
    by (simp add: findIndex_None_iff has_bookId_def)
  then obtain i where i: "findIndex (has_bookId bookId) (books (library s)) = Some i"
    by blast
  show eq: "deleteBook bookId False s =
      (s\<lparr>localStorage := Some (library s), writes := Suc (writes s)\<rparr>, Inr True)"
    by (simp add: deleteBook_def i saveLibrary_def)
  show "library (fst (deleteBook bookId False s)) = library s"
    by (simp add: eq)
next
  assume "\<forall>book\<in>set (books (library s)). js_get book ''bookId'' \<noteq> bookId"
  then have "findIndex (has_bookId bookId) (books (library s)) = None"
    by (simp add: findIndex_None_iff has_bookId_def)
  then show "deleteBook bookId hardDelete s = (s, Inl BookNotFound)"
    by (simp add: deleteBook_def)
qed

theorem deleteBook_soft_noop_and_missing_witness:
  "deleteBook (JStr ''B000000001'') False shelf_one =
     (shelf_one\<lparr>localStorage := Some (library shelf_one), writes := Suc (writes shelf_one)\<rparr>,
      Inr True)
   \<and> library (fst (deleteBook (JStr ''B000000001'') False shelf_one)) = library shelf_one
   \<and> deleteBook (JStr ''B000000009'') True shelf_one = (shelf_one, Inl BookNotFound)"
  using deleteBook_soft_noop_and_missing
          [where s = shelf_one and bookId = "JStr ''B000000001''"]
        deleteBook_soft_noop_and_missing
          [where s = shelf_one and bookId = "JStr ''B000000009''" and hardDelete = True]
  by (simp add: shelf_one_def book_one_def)

section \<open>Updating\<close>

lemma js_get_apply_update:
  "js_get (apply_update updates a book) k =
     (if k = a \<and> \<not> (a = ''__proto__'' \<and> js_get updates a \<noteq> JUndefined)
      then js_get updates a else js_get book k)"
  by (simp add: apply_update_def js_get_set js_get_delete)

lemma has_key_apply_update:
  "has_key (apply_update updates a book) k =
     (if k = a \<and> \<not> (a = ''__proto__'' \<and> js_get updates a \<noteq> JUndefined)
      then js_get updates a \<noteq> JUndefined else has_key book k)"
  by (simp add: apply_update_def has_key_set has_key_delete)

lemma js_get_fold_apply_update_other:
  "k \<notin> set ks \<Longrightarrow> js_get (fold (apply_update updates) ks book) k = js_get book k"
proof (induction ks arbitrary: book)
  case Nil
  show ?case by simp
next
  case (Cons a ks)
  then show ?case
    by (simp add: js_get_apply_update)
qed

lemma js_get_fold_apply_update:
  "''__proto__'' \<notin> set ks \<Longrightarrow>
   js_get (fold (apply_update updates) ks book) k =
     (if k \<in> set ks then js_get updates k else js_get book k)"
proof (induction ks arbitrary: book)
  case Nil
  show ?case by simp
next
  case (Cons a ks)
  then show ?case
    by (auto simp add: js_get_apply_update)
qed

lemma has_key_fold_apply_update:
  "''__proto__'' \<notin> set ks \<Longrightarrow>
   has_key (fold (apply_update updates) ks book) k =
     (if k \<in> set ks then js_get updates k \<noteq> JUndefined else has_key book k)"
proof (induction ks arbitrary: book)
  case Nil
  show ?case by simp
next
  case (Cons a ks)
  then show ?case
    by (auto simp add: has_key_apply_update)
qed

lemma updateBook_found:
  assumes "findIndex (has_bookId bookId) (books (library s)) = Some i"
  shows "updateBook bookId updates s =
    (saveLibrary (recount_all (set_books ((books (library s))
        [i := fold (apply_update updates) (map fst updates) (books (library s) ! i)]) s)),
     Inr (fold (apply_update updates) (map fst updates) (books (library s) ! i)))"
  by (simp add: updateBook_def assms Let_def)

lemma books_saveLibrary [simp]: "books (library (saveLibrary s)) = books (library s)"
  by (simp add: saveLibrary_def)

lemma books_recount_all [simp]: "books (library (recount_all s)) = books (library s)"
  by (simp add: recount_all_def set_metadata_def)

lemma books_set_books [simp]: "books (library (set_books bs s)) = bs"
  by (simp add: set_books_def)

text \<open>
  C7, as the claim states it, fails: an updates map naming \<open>bookId\<close>, \<open>addedDate\<close> and
  \<open>source\<close> changes all three on the record.
\<close>

theorem updateBook_identity_fields_counterexample:
  "\<not> (js_get (hd (books (library (fst (updateBook (JStr ''B000000001'')
            [(''bookId'', JStr ''B000000002''), (''addedDate'', JNum 7),
             (''source'', JStr ''kindle_import'')] shelf_one))))) ''bookId''
        = js_get book_one ''bookId''
      \<or> js_get (hd (books (library (fst (updateBook (JStr ''B000000001'')
            [(''bookId'', JStr ''B000000002''), (''addedDate'', JNum 7),
             (''source'', JStr ''kindle_import'')] shelf_one))))) ''addedDate''
        = js_get book_one ''addedDate''
      \<or> js_get (hd (books (library (fst (updateBook (JStr ''B000000001'')
            [(''bookId'', JStr ''B000000002''), (''addedDate'', JNum 7),
             (''source'', JStr ''kindle_import'')] shelf_one))))) ''source''
        = js_get book_one ''source'')"
proof -
  have found: "findIndex (has_bookId (JStr ''B000000001'')) (books (library shelf_one)) = Some 0"
    by (simp add: shelf_one_def book_one_def has_bookId_def)
  have bs: "books (library shelf_one) = [book_one]"
    by (simp add: shelf_one_def)
  show ?thesis
    by (simp add: updateBook_found [OF found] bs js_get_apply_update book_one_def)
qed

text \<open>
  C7, amended. \<open>updateBook\<close> on a record that is found, with an updates map that does
  not name \<open>__proto__\<close>, replaces that record, and no other, by the record with every
  key of the map written onto it: a key the map names reads afterwards as the map
  gives it (and is absent when the map gives \<open>undefined\<close>), \<open>bookId\<close>, \<open>addedDate\<close>
  and \<open>source\<close> included; every key the map does not name is unchanged. So \<open>bookId\<close>,
  \<open>addedDate\<close> and \<open>source\<close> keep their values when the updates map names none of
  them.
\<close>

theorem updateBook_writes_exactly_the_named_keys:
  assumes "findIndex (has_bookId bookId) (books (library s)) = Some i"
    and "''__proto__'' \<notin> fst ` set updates"
  shows "\<exists>s' book'. updateBook bookId updates s = (s', Inr book')
     \<and> books (library s') = (books (library s))[i := book']
     \<and> (\<forall>k. js_get book' k =
           (if k \<in> fst ` set updates then js_get updates k
            else js_get (books (library s) ! i) k))
     \<and> (\<forall>k. has_key book' k =
           (if k \<in> fst ` set updates then js_get updates k \<noteq> JUndefined
            else has_key (books (library s) ! i) k))
     \<and> (''bookId'' \<notin> fst ` set updates \<and> ''addedDate'' \<notin> fst ` set updates
          \<and> ''source'' \<notin> fst ` set updates \<longrightarrow>
        js_get book' ''bookId'' = js_get (books (library s) ! i) ''bookId''
        \<and> js_get book' ''addedDate'' = js_get (books (library s) ! i) ''addedDate''
        \<and> js_get book' ''source'' = js_get (books (library s) ! i) ''source'')"
proof -
  have keys: "''__proto__'' \<notin> set (map fst updates)"
    using assms(2) by simp
  show ?thesis
    by (simp add: updateBook_found [OF assms(1)] js_get_fold_apply_update [OF keys]
        has_key_fold_apply_update [OF keys])
qed

theorem updateBook_writes_exactly_the_named_keys_witness:
  "findIndex (has_bookId (JStr ''B000000001'')) (books (library shelf_one)) = Some 0
   \<and> ''__proto__'' \<notin> fst ` set [(''memo'', JStr ''good''), (''rating'', JUndefined)]
   \<and> (\<exists>s' book'. updateBook (JStr ''B000000001'')
          [(''memo'', JStr ''good''), (''rating'', JUndefined)] shelf_one = (s', Inr book')
        \<and> js_get book' ''memo'' = JStr ''good''
        \<and> js_get book' ''bookId'' = JStr ''B000000001''
        \<and> js_get book' ''addedDate'' = JNum 1000
        \<and> js_get book' ''source'' = JStr ''manual_add'')"
proof -
  have found: "findIndex (has_bookId (JStr ''B000000001'')) (books (library shelf_one)) = Some 0"
    by (simp add: shelf_one_def book_one_def has_bookId_def)
  have keys: "''__proto__'' \<notin> fst ` set [(''memo'', JStr ''good''), (''rating'', JUndefined)]"
    by simp
  have old: "books (library shelf_one) ! 0 = book_one"
    by (simp add: shelf_one_def)
  from updateBook_writes_exactly_the_named_keys [OF found keys]
  obtain s' book' where
    run: "updateBook (JStr ''B000000001'')
            [(''memo'', JStr ''good''), (''rating'', JUndefined)] shelf_one = (s', Inr book')"
    and get: "\<forall>k. js_get book' k =
           (if k \<in> fst ` set [(''memo'', JStr ''good''), (''rating'', JUndefined)]
            then js_get [(''memo'', JStr ''good''), (''rating'', JUndefined)] k
            else js_get (books (library shelf_one) ! 0) k)"
    by blast
  have "js_get book' ''memo'' = JStr ''good''"
    and "js_get book' ''bookId'' = JStr ''B000000001''"
    and "js_get book' ''addedDate'' = JNum 1000"
    and "js_get book' ''source'' = JStr ''manual_add''"
    by (simp_all add: get old book_one_def)
  with found keys run show ?thesis by blast
qed

section \<open>The merge-with-update step\<close>

lemma js_get_assign_kindle_fields:
  "js_get (assign_kindle_fields kindleBook existingBook) k =
     (if k \<in> {''title'', ''authors'', ''acquiredTime'', ''readStatus'', ''productImage''}
      then js_get kindleBook k else js_get existingBook k)"
  by (simp add: assign_kindle_fields_def js_get_set)

lemma has_key_assign_kindle_fields:
  "has_key (assign_kindle_fields kindleBook existingBook) k =
     (k \<in> {''title'', ''authors'', ''acquiredTime'', ''readStatus'', ''productImage''}
      \<or> has_key existingBook k)"
  by (auto simp add: assign_kindle_fields_def has_key_set)

lemma js_or_idem: "js_or a a = a"
  by (simp add: js_or_def)

lemma kindle_record_bookId: "js_get (kindle_record book now) ''bookId'' = candidate_id book"
  by (simp add: kindle_record_def js_get_set normalizeBook_bookId candidate_id_def js_or_def)

lemma kindle_record_source:
  "js_get (kindle_record book now) ''source'' = JStr ''kindle_import''"
  by (simp add: kindle_record_def js_get_set)

lemma kindle_record_compared:
  "k \<in> {''title'', ''acquiredTime'', ''readStatus'', ''productImage''} \<Longrightarrow>
   js_get (kindle_record book now) k = js_get book k"
  by (auto simp add: kindle_record_def js_get_set normalizeBook_def js_get_spread_if)

lemma shouldUpdateBook_kindle_record: "\<not> shouldUpdateBook (kindle_record book now) book"
  by (simp add: shouldUpdateBook_def kindle_record_compared)

lemma shouldUpdateBook_assign:
  "\<not> shouldUpdateBook (assign_kindle_fields kindleBook existingBook) kindleBook"
  by (simp add: shouldUpdateBook_def js_get_assign_kindle_fields)

lemma has_bookId_assign [simp]:
  "has_bookId b (assign_kindle_fields kindleBook existingBook) = has_bookId b existingBook"
  by (simp add: has_bookId_def js_get_assign_kindle_fields)

lemma findIndex_append_Some:
  "findIndex P xs = Some i \<Longrightarrow> findIndex P (xs @ ys) = Some i"
proof (induction xs arbitrary: i)
  case Nil
  then show ?case by simp
next
  case (Cons x xs)
  then show ?case by (cases "P x") auto
qed

lemma findIndex_snoc_None:
  "findIndex P xs = None \<Longrightarrow>
   findIndex P (xs @ [y]) = (if P y then Some (length xs) else None)"
  by (induction xs) (auto split: if_splits)

lemma findIndex_list_update:
  "i < length xs \<Longrightarrow> P y = P (xs ! i) \<Longrightarrow> findIndex P (xs[i := y]) = findIndex P xs"
proof (induction xs arbitrary: i)
  case Nil
  then show ?case by simp
next
  case (Cons x xs)
  then show ?case by (cases i) auto
qed

lemma importFromKindle_step_found:
  assumes "findIndex (has_bookId (candidate_id kindleBook)) (books (library s)) = Some i"
  shows "importFromKindle_step clock kindleBook (s, r) =
     (if shouldUpdateBook (books (library s) ! i) kindleBook
      then (set_books ((books (library s))
               [i := assign_kindle_fields kindleBook (books (library s) ! i)]) s,
            r\<lparr>updated := Suc (updated r)\<rparr>)
      else (s, r\<lparr>skipped := Suc (skipped r)\<rparr>))"
  by (simp add: importFromKindle_step_def assms Let_def)

lemma importFromKindle_step_new:
  assumes "findIndex (has_bookId (candidate_id kindleBook)) (books (library s)) = None"
  shows "importFromKindle_step clock kindleBook (s, r) =
     (set_books (books (library s) @ [kindle_record kindleBook (clock (ticks s))])
        (s\<lparr>ticks := Suc (ticks s)\<rparr>),
      r\<lparr>added := Suc (added r)\<rparr>)"
  by (simp add: importFromKindle_step_def assms Let_def Date_now_def)

lemma importFromKindle_loop_objects:
  "importFromKindle_loop clock (map Some cs) sr =
     (fst (fold (importFromKindle_step clock) cs sr),
      Inr (snd (fold (importFromKindle_step clock) cs sr)))"
  by (induction cs arbitrary: sr) simp_all

lemma importFromKindle_objects:
  "importFromKindle clock (map Some cs) s =
     (let sr = fold (importFromKindle_step clock) cs
                 (s, \<lparr>total = length cs, added = 0, updated = 0, skipped = 0\<rparr>);
          s2 = snd (Date_now clock (fst sr))
      in (saveLibrary (set_metadata ((metadata (library s2))
              \<lparr>lastImportDate := JNum (fst (Date_now clock (fst sr))),
               totalBooks := length (books (library s2)),
               importedFromKindle := count_source ''kindle_import'' (books (library s2))\<rparr>)
            s2),
          Inr (snd sr)))"
  by (simp add: importFromKindle_def importFromKindle_loop_objects Let_def)

lemma books_after_import:
  "books (library (fst (importFromKindle clock (map Some cs) s))) =
     books (library (fst (fold (importFromKindle_step clock) cs
        (s, \<lparr>total = length cs, added = 0, updated = 0, skipped = 0\<rparr>))))"
  by (simp add: importFromKindle_objects Let_def set_metadata_def Date_now_def)

lemma importFromKindle_single:
  "books (library (fst (importFromKindle clock [Some kindleBook] s))) =
     books (library (fst (importFromKindle_step clock kindleBook
        (s, \<lparr>total = 1, added = 0, updated = 0, skipped = 0\<rparr>))))
   \<and> snd (importFromKindle clock [Some kindleBook] s) =
     Inr (snd (importFromKindle_step clock kindleBook
        (s, \<lparr>total = 1, added = 0, updated = 0, skipped = 0\<rparr>)))"
  using importFromKindle_objects [of clock "[kindleBook]" s]
        books_after_import [of clock "[kindleBook]" s]
  by (simp add: Let_def)

text \<open>
  C3, as the claim states it, fails: a candidate that matches an existing record and
  differs from it in \<open>acquiredTime\<close> and \<open>readStatus\<close> also replaces the record's
  \<open>authors\<close>.
\<close>

theorem importFromKindle_overwrites_authors_counterexample:
  "js_get (hd (books (library (fst (importFromKindle int [Some cand_changed] shelf_one)))))
      ''authors'' = JStr ''Other''
   \<and> js_get (hd (books (library shelf_one))) ''authors'' = JStr ''A1''"
proof -
  have bs: "books (library shelf_one) = [book_one]"
    by (simp add: shelf_one_def)
  have found: "findIndex (has_bookId (candidate_id cand_changed)) (books (library shelf_one))
      = Some 0"
    by (simp add: bs book_one_def has_bookId_def candidate_id_def js_or_def cand_changed_def)
  have upd: "shouldUpdateBook (books (library shelf_one) ! 0) cand_changed"
    by (simp add: bs book_one_def shouldUpdateBook_def cand_changed_def)
  have step: "importFromKindle_step int cand_changed
        (shelf_one, \<lparr>total = Suc 0, added = 0, updated = 0, skipped = 0\<rparr>) =
      (set_books [assign_kindle_fields cand_changed book_one] shelf_one,
       \<lparr>total = Suc 0, added = 0, updated = Suc 0, skipped = 0\<rparr>)"
    using importFromKindle_step_found [OF found] upd by (simp add: bs)
  have "books (library (fst (importFromKindle int [Some cand_changed] shelf_one))) =
          [assign_kindle_fields cand_changed book_one]"
    by (simp add: importFromKindle_def step Date_now_def Let_def set_metadata_def
        set_books_def saveLibrary_def)
  then have "js_get (hd (books (library (fst (importFromKindle int [Some cand_changed]
          shelf_one))))) ''authors'' = JStr ''Other''"
    by (simp add: js_get_assign_kindle_fields cand_changed_def)
  moreover have "js_get (hd (books (library shelf_one))) ''authors'' = JStr ''A1''"
    by (simp add: bs book_one_def)
  ultimately show ?thesis by blast
qed

text \<open>
  C3, amended. In a merge-with-update batch, a candidate whose identifier matches an
  existing record (the first record carrying it) is compared with that record on
  \<open>acquiredTime\<close>, \<open>readStatus\<close>, \<open>title\<close> and \<open>productImage\<close>. If one of the four
  differs, the five fields \<open>title\<close>, \<open>authors\<close>, \<open>acquiredTime\<close>, \<open>readStatus\<close> and
  \<open>productImage\<close> of that record are overwritten with the candidate's values and every
  other field of it (\<open>bookId\<close>, \<open>addedDate\<close>, \<open>source\<close> among them) and every other
  record is unchanged, and the candidate counts as updated. If none of the four
  differs, the state is unchanged and the candidate counts as skipped. The same is
  stated for the whole operation on the batch of that one candidate.
\<close>

theorem importFromKindle_step_existing_record:
  assumes "findIndex (has_bookId (candidate_id kindleBook)) (books (library s)) = Some i"
  shows "(shouldUpdateBook (books (library s) ! i) kindleBook \<longrightarrow>
      (\<exists>book'. importFromKindle_step clock kindleBook (s, r) =
           (set_books ((books (library s))[i := book']) s, r\<lparr>updated := Suc (updated r)\<rparr>)
        \<and> (\<forall>k. js_get book' k =
              (if k \<in> {''title'', ''authors'', ''acquiredTime'', ''readStatus'',
                        ''productImage''}
               then js_get kindleBook k else js_get (books (library s) ! i) k))
        \<and> (\<forall>k. has_key book' k =
              (k \<in> {''title'', ''authors'', ''acquiredTime'', ''readStatus'',
                     ''productImage''}
               \<or> has_key (books (library s) ! i) k))
        \<and> books (library (fst (importFromKindle clock [Some kindleBook] s)))
            = (books (library s))[i := book']
        \<and> snd (importFromKindle clock [Some kindleBook] s)
            = Inr \<lparr>total = 1, added = 0, updated = 1, skipped = 0\<rparr>))
   \<and> (\<not> shouldUpdateBook (books (library s) ! i) kindleBook \<longrightarrow>
      importFromKindle_step clock kindleBook (s, r) = (s, r\<lparr>skipped := Suc (skipped r)\<rparr>)
      \<and> books (library (fst (importFromKindle clock [Some kindleBook] s)))
          = books (library s)
      \<and> snd (importFromKindle clock [Some kindleBook] s)
          = Inr \<lparr>total = 1, added = 0, updated = 0, skipped = 1\<rparr>)"
proof (rule conjI; rule impI)
  assume upd: "shouldUpdateBook (books (library s) ! i) kindleBook"
  let ?b = "assign_kindle_fields kindleBook (books (library s) ! i)"
  have step: "importFromKindle_step clock kindleBook (s, r) =
          (set_books ((books (library s))[i := ?b]) s, r\<lparr>updated := Suc (updated r)\<rparr>)"
    for r
    by (simp add: importFromKindle_step_found [OF assms] upd)
  have get: "\<forall>k. js_get ?b k =
              (if k \<in> {''title'', ''authors'', ''acquiredTime'', ''readStatus'',
                        ''productImage''}
               then js_get kindleBook k else js_get (books (library s) ! i) k)"
    by (simp only: js_get_assign_kindle_fields) simp
  have key: "\<forall>k. has_key ?b k =
              (k \<in> {''title'', ''authors'', ''acquiredTime'', ''readStatus'',
                     ''productImage''}
               \<or> has_key (books (library s) ! i) k)"
    by (simp only: has_key_assign_kindle_fields) simp
  have whole: "books (library (fst (importFromKindle clock [Some kindleBook] s)))
            = (books (library s))[i := ?b]"
    "snd (importFromKindle clock [Some kindleBook] s)
            = Inr \<lparr>total = 1, added = 0, updated = 1, skipped = 0\<rparr>"
    using importFromKindle_single [of clock kindleBook s] by (simp_all add: step)
  from step get key whole
  show "\<exists>book'. importFromKindle_step clock kindleBook (s, r) =
           (set_books ((books (library s))[i := book']) s, r\<lparr>updated := Suc (updated r)\<rparr>)
        \<and> (\<forall>k. js_get book' k =
              (if k \<in> {''title'', ''authors'', ''acquiredTime'', ''readStatus'',
                        ''productImage''}
               then js_get kindleBook k else js_get (books (library s) ! i) k))
        \<and> (\<forall>k. has_key book' k =
              (k \<in> {''title'', ''authors'', ''acquiredTime'', ''readStatus'',
                     ''productImage''}
               \<or> has_key (books (library s) ! i) k))
        \<and> books (library (fst (importFromKindle clock [Some kindleBook] s)))
            = (books (library s))[i := book']
        \<and> snd (importFromKindle clock [Some kindleBook] s)
            = Inr \<lparr>total = 1, added = 0, updated = 1, skipped = 0\<rparr>"
    by blast
next
  assume same: "\<not> shouldUpdateBook (books (library s) ! i) kindleBook"
  have step: "importFromKindle_step clock kindleBook (s, r) =
      (s, r\<lparr>skipped := Suc (skipped r)\<rparr>)" for r
    using same by (simp add: importFromKindle_step_found [OF assms])
  show "importFromKindle_step clock kindleBook (s, r) =
      (s, r\<lparr>skipped := Suc (skipped r)\<rparr>)
      \<and> books (library (fst (importFromKindle clock [Some kindleBook] s)))
          = books (library s)
      \<and> snd (importFromKindle clock [Some kindleBook] s)
          = Inr \<lparr>total = 1, added = 0, updated = 0, skipped = 1\<rparr>"
    using importFromKindle_single [of clock kindleBook s] by (simp add: step)
qed

theorem importFromKindle_step_existing_record_witness:
  "findIndex (has_bookId (candidate_id cand_changed)) (books (library shelf_one)) = Some 0
   \<and> shouldUpdateBook (books (library shelf_one) ! 0) cand_changed
   \<and> (\<exists>book'. importFromKindle_step int cand_changed (shelf_one, no_results) =
           (set_books ((books (library shelf_one))[0 := book']) shelf_one,
            no_results\<lparr>updated := Suc (updated no_results)\<rparr>)
        \<and> js_get book' ''authors'' = JStr ''Other''
        \<and> js_get book' ''acquiredTime'' = JNum 100
        \<and> js_get book' ''source'' = JStr ''manual_add''
        \<and> js_get book' ''addedDate'' = JNum 1000)
   \<and> \<not> shouldUpdateBook (books (library shelf_one) ! 0) cand_same
   \<and> importFromKindle_step int cand_same (shelf_one, no_results) =
        (shelf_one, no_results\<lparr>skipped := Suc (skipped no_results)\<rparr>)"
proof -
  have bs: "books (library shelf_one) ! 0 = book_one"
    by (simp add: shelf_one_def)
  have found1: "findIndex (has_bookId (candidate_id cand_changed)) (books (library shelf_one)) = Some 0"
    by (simp add: shelf_one_def book_one_def has_bookId_def candidate_id_def js_or_def
        cand_changed_def)
  have found2: "findIndex (has_bookId (candidate_id cand_same)) (books (library shelf_one)) = Some 0"
    by (simp add: shelf_one_def book_one_def has_bookId_def candidate_id_def js_or_def
        cand_same_def)
  have upd: "shouldUpdateBook (books (library shelf_one) ! 0) cand_changed"
    by (simp add: bs book_one_def shouldUpdateBook_def cand_changed_def)
  have same: "\<not> shouldUpdateBook (books (library shelf_one) ! 0) cand_same"
    by (simp add: bs book_one_def shouldUpdateBook_def cand_same_def)
  from importFromKindle_step_existing_record [OF found1, of int no_results] upd
  obtain book' where
    step: "importFromKindle_step int cand_changed (shelf_one, no_results) =
           (set_books ((books (library shelf_one))[0 := book']) shelf_one,
            no_results\<lparr>updated := Suc (updated no_results)\<rparr>)"
    and get: "\<forall>k. js_get book' k =
              (if k \<in> {''title'', ''authors'', ''acquiredTime'', ''readStatus'',
                        ''productImage''}
               then js_get cand_changed k else js_get (books (library shelf_one) ! 0) k)"
    by blast
  have fields: "js_get book' ''authors'' = JStr ''Other''"
      "js_get book' ''acquiredTime'' = JNum 100"
      "js_get book' ''source'' = JStr ''manual_add''"
      "js_get book' ''addedDate'' = JNum 1000"
    by (simp_all add: get bs book_one_def cand_changed_def)
  from importFromKindle_step_existing_record [OF found2, of int no_results] same
  have skip: "importFromKindle_step int cand_same (shelf_one, no_results) =
        (shelf_one, no_results\<lparr>skipped := Suc (skipped no_results)\<rparr>)"
    by blast
  from found1 upd step fields same skip show ?thesis by blast
qed

section \<open>Re-import\<close>

lemma settledI:
  "findIndex (has_bookId (candidate_id c)) bs = Some i \<Longrightarrow> \<not> shouldUpdateBook (bs ! i) c
   \<Longrightarrow> settled bs c"
  by (simp add: settled_def)

lemma settledE:
  assumes "settled bs c"
  obtains i where "findIndex (has_bookId (candidate_id c)) bs = Some i"
    and "\<not> shouldUpdateBook (bs ! i) c"
  using assms by (auto simp add: settled_def split: option.splits)

lemma step_settles_own_candidate:
  "settled (books (library (fst (importFromKindle_step clock c (s, r))))) c"
proof (cases "findIndex (has_bookId (candidate_id c)) (books (library s))")
  case None
  let ?y = "kindle_record c (clock (ticks s))"
  have "has_bookId (candidate_id c) ?y"
    by (simp add: has_bookId_def kindle_record_bookId)
  then have "findIndex (has_bookId (candidate_id c)) (books (library s) @ [?y])
      = Some (length (books (library s)))"
    by (simp add: findIndex_snoc_None [OF None])
  moreover have "\<not> shouldUpdateBook ((books (library s) @ [?y]) ! length (books (library s))) c"
    by (simp add: shouldUpdateBook_kindle_record)
  ultimately have "settled (books (library s) @ [?y]) c"
    by (rule settledI)
  then show ?thesis
    by (simp add: importFromKindle_step_new [OF None])
next
  case (Some i)
  note bound = findIndex_Some_bound [OF Some]
  show ?thesis
  proof (cases "shouldUpdateBook (books (library s) ! i) c")
    case True
    let ?y = "assign_kindle_fields c (books (library s) ! i)"
    have "findIndex (has_bookId (candidate_id c)) ((books (library s))[i := ?y]) = Some i"
      using bound Some by (simp add: findIndex_list_update)
    moreover have "\<not> shouldUpdateBook (((books (library s))[i := ?y]) ! i) c"
      using bound by (simp add: shouldUpdateBook_assign)
    ultimately have "settled ((books (library s))[i := ?y]) c"
      by (rule settledI)
    then show ?thesis
      by (simp add: importFromKindle_step_found [OF Some] True)
  next
    case False
    have "settled (books (library s)) c"
      using Some False by (rule settledI)
    then show ?thesis
      by (simp add: importFromKindle_step_found [OF Some] False)
  qed
qed

lemma shouldUpdateBook_same_compared:
  "same_compared c c' \<Longrightarrow> shouldUpdateBook b c' = shouldUpdateBook b c"
  by (simp add: same_compared_def shouldUpdateBook_def)

lemma step_keeps_settled:
  assumes set: "settled (books (library s)) c'" and comp: "compatible c c'"
  shows "settled (books (library (fst (importFromKindle_step clock c (s, r))))) c'"
proof -
  from set obtain j where j: "findIndex (has_bookId (candidate_id c')) (books (library s)) = Some j"
    and agree: "\<not> shouldUpdateBook (books (library s) ! j) c'"
    by (rule settledE)
  show ?thesis
  proof (cases "findIndex (has_bookId (candidate_id c)) (books (library s))")
    case None
    let ?y = "kindle_record c (clock (ticks s))"
    have "findIndex (has_bookId (candidate_id c')) (books (library s) @ [?y]) = Some j"
      by (rule findIndex_append_Some [OF j])
    moreover have "(books (library s) @ [?y]) ! j = books (library s) ! j"
      using findIndex_Some_bound [OF j] by (simp add: nth_append)
    ultimately have "settled (books (library s) @ [?y]) c'"
      using agree by (simp add: settled_def)
    then show ?thesis
      by (simp add: importFromKindle_step_new [OF None])
  next
    case (Some i)
    note bound = findIndex_Some_bound [OF Some]
    show ?thesis
    proof (cases "shouldUpdateBook (books (library s) ! i) c")
      case False
      then show ?thesis
        using set by (simp add: importFromKindle_step_found [OF Some])
    next
      case True
      let ?y = "assign_kindle_fields c (books (library s) ! i)"
      let ?bs = "(books (library s))[i := ?y]"
      have idx: "findIndex (has_bookId (candidate_id c')) ?bs = Some j"
        using bound j by (simp add: findIndex_list_update)
      have "\<not> shouldUpdateBook (?bs ! j) c'"
      proof (cases "j = i")
        case False
        then show ?thesis using agree by simp
      next
        case same: True
        have "has_bookId (candidate_id c') (books (library s) ! i)"
          using findIndex_Some_bound [OF j] same by simp
        moreover have "has_bookId (candidate_id c) (books (library s) ! i)"
          using bound by simp
        ultimately have "candidate_id c = candidate_id c'"
          by (simp add: has_bookId_def)
        with comp have "same_compared c c'"
          by (simp add: compatible_def)
        then have "shouldUpdateBook ?y c' = shouldUpdateBook ?y c"
          by (rule shouldUpdateBook_same_compared)
        then show ?thesis
          using same bound by (simp add: shouldUpdateBook_assign)
      qed
      with idx have "settled ?bs c'"
        by (rule settledI)
      then show ?thesis
        by (simp add: importFromKindle_step_found [OF Some] True)
    qed
  qed
qed

lemma fold_step_settles:
  assumes "\<forall>c\<in>set cs. \<forall>c'\<in>set ds \<union> set cs. compatible c c'"
    and "\<forall>d\<in>set ds. settled (books (library (fst sr))) d"
  shows "\<forall>d\<in>set ds \<union> set cs.
           settled (books (library (fst (fold (importFromKindle_step clock) cs sr)))) d"
  using assms
proof (induction cs arbitrary: sr ds)
  case Nil
  then show ?case by simp
next
  case (Cons c cs)
  obtain s r where sr: "sr = (s, r)" by (cases sr)
  let ?sr = "importFromKindle_step clock c sr"
  have own: "settled (books (library (fst ?sr))) c"
    unfolding sr by (rule step_settles_own_candidate)
  have old: "\<forall>d\<in>set ds. settled (books (library (fst ?sr))) d"
  proof
    fix d assume d: "d \<in> set ds"
    with Cons.prems have "settled (books (library s)) d" and "compatible c d"
      by (auto simp add: sr)
    then show "settled (books (library (fst ?sr))) d"
      unfolding sr by (rule step_keeps_settled)
  qed
  have "\<forall>d\<in>set (ds @ [c]) \<union> set cs.
           settled (books (library (fst (fold (importFromKindle_step clock) cs ?sr)))) d"
  proof (rule Cons.IH)
    show "\<forall>x\<in>set cs. \<forall>c'\<in>set (ds @ [c]) \<union> set cs. compatible x c'"
      using Cons.prems(1) by auto
    show "\<forall>d\<in>set (ds @ [c]). settled (books (library (fst ?sr))) d"
      using own old by auto
  qed
  then show ?case by auto
qed

lemma fold_step_all_settled:
  assumes "\<forall>c\<in>set cs. settled (books (library s)) c"
  shows "fold (importFromKindle_step clock) cs (s, r) =
           (s, r\<lparr>skipped := skipped r + length cs\<rparr>)"
  using assms
proof (induction cs arbitrary: r)
  case Nil
  then show ?case by simp
next
  case (Cons c cs)
  from Cons.prems have "settled (books (library s)) c" by simp
  then obtain i where i: "findIndex (has_bookId (candidate_id c)) (books (library s)) = Some i"
    and agree: "\<not> shouldUpdateBook (books (library s) ! i) c"
    by (rule settledE)
  have step: "importFromKindle_step clock c (s, r) = (s, r\<lparr>skipped := Suc (skipped r)\<rparr>)"
    by (simp add: importFromKindle_step_found [OF i] agree)
  from Cons.prems have rest: "\<forall>c\<in>set cs. settled (books (library s)) c" by simp
  show ?case
    by (simp add: step Cons.IH [OF rest])
qed

lemma batch_consistent_iff:
  "batch_consistent cs \<longleftrightarrow> (\<forall>c\<in>set cs. \<forall>c'\<in>set cs. compatible c c')"
  by (simp add: batch_consistent_def list_all_iff)

lemma distinct_ids_consistent:
  assumes "distinct (map candidate_id cs)"
  shows "batch_consistent cs"
proof -
  have "compatible c c'" if "c \<in> set cs" and "c' \<in> set cs" for c c'
  proof (cases "candidate_id c = candidate_id c'")
    case True
    with assms that have "c = c'"
      by (meson distinct_map inj_onD)
    then show ?thesis
      by (simp add: compatible_def same_compared_def)
  next
    case False
    then show ?thesis by (simp add: compatible_def)
  qed
  then show ?thesis
    by (simp add: batch_consistent_iff)
qed

text \<open>
  C4, as the claim states it, fails: for the batch of two candidates with one identifier
  and different titles, the second run on the unchanged batch updates twice and skips
  nothing.
\<close>

theorem importFromKindle_reimport_counterexample:
  "snd (importFromKindle int [Some cand_a, Some cand_b]
          (fst (importFromKindle int [Some cand_a, Some cand_b] (new_BookManager None))))
     = Inr \<lparr>total = 2, added = 0, updated = 2, skipped = 0\<rparr>"
  by (simp add: importFromKindle_def importFromKindle_step_def new_BookManager_def
      empty_metadata_def cand_a_def cand_b_def candidate_id_def js_or_def has_bookId_def
      Date_now_def Let_def set_books_def set_metadata_def saveLibrary_def
      kindle_record_def normalizeBook_def spread_if_def js_set_def
      shouldUpdateBook_def assign_kindle_fields_def)

text \<open>
  C4, amended. For every batch of candidate objects in which any two candidates that
  resolve to the same identifier agree on \<open>acquiredTime\<close>, \<open>readStatus\<close>, \<open>title\<close> and
  \<open>productImage\<close> (in particular every batch whose identifiers are pairwise distinct),
  and every library: \<open>importFromKindle\<close> returns, and running it again on the unchanged
  batch returns \<open>added = 0\<close>, \<open>updated = 0\<close> and \<open>skipped = total\<close>, the number of
  candidates, and leaves the records as the first run left them.
\<close>

theorem importFromKindle_reimport_idempotent:
  assumes "distinct (map candidate_id cs) \<or> batch_consistent cs"
  shows "\<exists>s1 r1 s2 r2.
      importFromKindle clock (map Some cs) s = (s1, Inr r1)
    \<and> importFromKindle clock' (map Some cs) s1 = (s2, Inr r2)
    \<and> added r2 = 0 \<and> updated r2 = 0 \<and> skipped r2 = length cs \<and> total r2 = length cs
    \<and> books (library s2) = books (library s1)"
proof -
  from assms have cons: "batch_consistent cs"
    using distinct_ids_consistent by blast
  let ?r0 = "\<lparr>total = length cs, added = 0, updated = 0, skipped = 0\<rparr>"
  obtain s1 r1 where run1: "importFromKindle clock (map Some cs) s = (s1, Inr r1)"
    by (simp add: importFromKindle_objects Let_def)
  have "\<forall>d\<in>set [] \<union> set cs.
      settled (books (library (fst (fold (importFromKindle_step clock) cs (s, ?r0))))) d"
    by (rule fold_step_settles) (use cons in \<open>simp_all add: batch_consistent_iff\<close>)
  moreover have "books (library s1) =
      books (library (fst (fold (importFromKindle_step clock) cs (s, ?r0))))"
    using books_after_import [of clock cs s] run1 by simp
  ultimately have all: "\<forall>c\<in>set cs. settled (books (library s1)) c"
    by simp
  have fold2: "fold (importFromKindle_step clock') cs (s1, ?r0) =
      (s1, ?r0\<lparr>skipped := skipped ?r0 + length cs\<rparr>)"
    by (rule fold_step_all_settled [OF all])
  obtain s2 r2 where run2: "importFromKindle clock' (map Some cs) s1 = (s2, Inr r2)"
    by (simp add: importFromKindle_objects Let_def)
  have r2: "r2 = ?r0\<lparr>skipped := skipped ?r0 + length cs\<rparr>"
    using run2 by (simp add: importFromKindle_objects Let_def fold2)
  have "books (library s2) = books (library s1)"
    using books_after_import [of clock' cs s1] run2 by (simp add: fold2)
  with run1 run2 r2 show ?thesis by simp
qed

theorem importFromKindle_reimport_idempotent_witness:
  "distinct (map candidate_id [cand_a, cand_c])
   \<and> (\<exists>s1 r1 s2 r2.
      importFromKindle int (map Some [cand_a, cand_c]) (new_BookManager None) = (s1, Inr r1)
    \<and> importFromKindle int (map Some [cand_a, cand_c]) s1 = (s2, Inr r2)
    \<and> added r2 = 0 \<and> updated r2 = 0 \<and> skipped r2 = 2 \<and> total r2 = 2
    \<and> books (library s2) = books (library s1))"
proof -
  have d: "distinct (map candidate_id [cand_a, cand_c])"
    by (simp add: cand_a_def cand_c_def candidate_id_def js_or_def)
  then have "distinct (map candidate_id [cand_a, cand_c]) \<or> batch_consistent [cand_a, cand_c]"
    by blast
  from importFromKindle_reimport_idempotent [OF this, of int "new_BookManager None" int] d
  show ?thesis by (simp add: numeral_2_eq_2)
qed

section \<open>The insert-only import\<close>

text \<open>
  C2. The insert-only import on an empty collection with two candidates carrying the
  same new identifier: the set of existing identifiers is built before the loop and is
  not extended when a record is pushed, so the second candidate is not seen as a
  duplicate. Both candidates are inserted, \<open>added\<close> is 2, the duplicate list is empty
  and the collection holds two records with the same \<open>bookId\<close>.
\<close>

theorem importSelectedBooks_repeated_new_identifier:
  "\<exists>s r. importSelectedBooks int [Some cand_a, Some cand_b] (new_BookManager None) = (s, Inr r)
     \<and> added r = 2 \<and> duplicates r = [] \<and> errors r = []
     \<and> map (\<lambda>book. js_get book ''bookId'') (books (library s)) =
         [JStr ''B000000001'', JStr ''B000000001'']
     \<and> map (\<lambda>book. js_get book ''title'') (books (library s)) = [JStr ''A'', JStr ''B'']"
  by (simp add: importSelectedBooks_def importSelectedBooks_try_def new_BookManager_def
      empty_metadata_def cand_a_def cand_b_def candidate_id_def js_or_def
      Date_now_def Let_def set_books_def set_metadata_def saveLibrary_def
      kindle_record_def normalizeBook_def spread_if_def js_set_def)

lemma importSelectedBooks_loop_null:
  "importSelectedBooks_loop clock ids (None # rest) sb = (fst sb, Inl TypeError)"
  by (simp add: importSelectedBooks_try_def importSelectedBooks_catch_def)

lemma importSelectedBooks_try_object:
  "importSelectedBooks_try clock ids (Some book) (s, b) =
     (if candidate_id book \<in> ids
      then Inr (s, b\<lparr>duplicateBooks := duplicateBooks b @
                    [duplicate_entry book (candidate_id book)]\<rparr>)
      else Inr (set_books (books (library s) @ [kindle_record book (clock (ticks s))])
                  (s\<lparr>ticks := Suc (ticks s)\<rparr>),
                b\<lparr>importedBooks := importedBooks b @
                    [kindle_record book (clock (ticks s))]\<rparr>))"
  by (simp add: importSelectedBooks_try_def Let_def Date_now_def)

lemma duplicate_entry_bookId: "js_get (duplicate_entry book bookId) ''bookId'' = bookId"
  by (simp add: duplicate_entry_def)

lemma importSelectedBooks_loop_objects:
  "\<exists>s' b'. importSelectedBooks_loop clock ids (map Some cs) (s, b) = (s', Inr b')
     \<and> errorBooks b' = errorBooks b
     \<and> (\<exists>new. importedBooks b' = importedBooks b @ new
           \<and> books (library s') = books (library s) @ new
           \<and> map (\<lambda>book. js_get book ''bookId'') new =
               filter (\<lambda>i. i \<notin> ids) (map candidate_id cs))
     \<and> (\<exists>dup. duplicateBooks b' = duplicateBooks b @ dup
           \<and> map (\<lambda>book. js_get book ''bookId'') dup =
               filter (\<lambda>i. i \<in> ids) (map candidate_id cs))"
proof (induction cs arbitrary: s b)
  case Nil
  show ?case by simp
next
  case (Cons c cs)
  show ?case
  proof (cases "candidate_id c \<in> ids")
    case True
    let ?b = "b\<lparr>duplicateBooks := duplicateBooks b @ [duplicate_entry c (candidate_id c)]\<rparr>"
    from Cons.IH [of s ?b] obtain s' b' new dup where
      run: "importSelectedBooks_loop clock ids (map Some cs) (s, ?b) = (s', Inr b')"
      and err: "errorBooks b' = errorBooks ?b"
      and new: "importedBooks b' = importedBooks ?b @ new"
        "books (library s') = books (library s) @ new"
        "map (\<lambda>book. js_get book ''bookId'') new = filter (\<lambda>i. i \<notin> ids) (map candidate_id cs)"
      and dup: "duplicateBooks b' = duplicateBooks ?b @ dup"
        "map (\<lambda>book. js_get book ''bookId'') dup = filter (\<lambda>i. i \<in> ids) (map candidate_id cs)"
      by blast
    have "importSelectedBooks_loop clock ids (map Some (c # cs)) (s, b) = (s', Inr b')"
      by (simp add: importSelectedBooks_try_object True run)
    moreover have "errorBooks b' = errorBooks b"
      using err by simp
    moreover have "importedBooks b' = importedBooks b @ new"
      using new(1) by simp
    moreover have "map (\<lambda>book. js_get book ''bookId'') new =
        filter (\<lambda>i. i \<notin> ids) (map candidate_id (c # cs))"
      using new(3) True by simp
    moreover have "duplicateBooks b' =
        duplicateBooks b @ (duplicate_entry c (candidate_id c) # dup)"
      using dup(1) by simp
    moreover have "map (\<lambda>book. js_get book ''bookId'')
          (duplicate_entry c (candidate_id c) # dup) =
        filter (\<lambda>i. i \<in> ids) (map candidate_id (c # cs))"
      using dup(2) True by (simp add: duplicate_entry_bookId)
    ultimately show ?thesis
      using new(2) by blast
  next
    case False
    let ?y = "kindle_record c (clock (ticks s))"
    let ?s = "set_books (books (library s) @ [?y]) (s\<lparr>ticks := Suc (ticks s)\<rparr>)"
    let ?b = "b\<lparr>importedBooks := importedBooks b @ [?y]\<rparr>"
    from Cons.IH [of ?s ?b] obtain s' b' new dup where
      run: "importSelectedBooks_loop clock ids (map Some cs) (?s, ?b) = (s', Inr b')"
      and err: "errorBooks b' = errorBooks ?b"
      and new: "importedBooks b' = importedBooks ?b @ new"
        "books (library s') = books (library ?s) @ new"
        "map (\<lambda>book. js_get book ''bookId'') new = filter (\<lambda>i. i \<notin> ids) (map candidate_id cs)"
      and dup: "duplicateBooks b' = duplicateBooks ?b @ dup"
        "map (\<lambda>book. js_get book ''bookId'') dup = filter (\<lambda>i. i \<in> ids) (map candidate_id cs)"
      by blast
    have "importSelectedBooks_loop clock ids (map Some (c # cs)) (s, b) = (s', Inr b')"
      by (simp add: importSelectedBooks_try_object False run)
    moreover have "errorBooks b' = errorBooks b"
      using err by simp
    moreover have "importedBooks b' = importedBooks b @ (?y # new)"
      using new(1) by simp
    moreover have "books (library s') = books (library s) @ (?y # new)"
      using new(2) by simp
    moreover have "map (\<lambda>book. js_get book ''bookId'') (?y # new) =
        filter (\<lambda>i. i \<notin> ids) (map candidate_id (c # cs))"
      using new(3) False by (simp add: kindle_record_bookId)
    moreover have "duplicateBooks b' = duplicateBooks b @ dup"
      using dup(1) by simp
    moreover have "map (\<lambda>book. js_get book ''bookId'') dup =
        filter (\<lambda>i. i \<in> ids) (map candidate_id (c # cs))"
      using dup(2) False by simp
    ultimately show ?thesis
      by blast
  qed
qed

text \<open>
  A candidate from which no identifier can be resolved is not a failure: the insert-only
  import inserts it under the identifier \<open>undefined\<close> and reports nothing in the error
  list.
\<close>

lemma importSelectedBooks_no_identifier_inserted:
  "\<exists>s r. importSelectedBooks int [Some [(''title'', JStr ''T'')]] (new_BookManager None)
             = (s, Inr r)
     \<and> errors r = [] \<and> added r = 1 \<and> skipped r = 0
     \<and> map (\<lambda>book. js_get book ''bookId'') (books (library s)) = [JUndefined]"
  by (simp add: importSelectedBooks_def importSelectedBooks_try_def new_BookManager_def
      empty_metadata_def candidate_id_def js_or_def
      Date_now_def Let_def set_books_def set_metadata_def saveLibrary_def
      kindle_record_def normalizeBook_def spread_if_def js_set_def)

text \<open>
  C8. A batch with a \<open>null\<close> candidate between two objects. In \<open>importSelectedBooks\<close>
  the \<open>try\<close> block throws on the \<open>null\<close> candidate, the \<open>catch\<close> block reads
  \<open>book.title\<close> of the same candidate and throws again, and the error leaves the
  operation: the first candidate has been pushed, the third is never processed, nothing
  is returned (no error list, no counts), the metadata is not assigned and nothing is
  saved. \<open>importFromKindle\<close>, which has no \<open>try\<close>, is aborted by the same batch in the
  same way.
\<close>

theorem importSelectedBooks_null_candidate_aborts:
  "snd (importSelectedBooks int [Some cand_c, None, Some cand_a] (new_BookManager None))
     = Inl TypeError
   \<and> bookIds (fst (importSelectedBooks int [Some cand_c, None, Some cand_a]
         (new_BookManager None))) = [JStr ''B000000002'']
   \<and> metadata (library (fst (importSelectedBooks int [Some cand_c, None, Some cand_a]
         (new_BookManager None)))) = empty_metadata
   \<and> writes (fst (importSelectedBooks int [Some cand_c, None, Some cand_a]
         (new_BookManager None))) = 0
   \<and> snd (importFromKindle int [Some cand_c, None, Some cand_a] (new_BookManager None))
     = Inl TypeError
   \<and> bookIds (fst (importFromKindle int [Some cand_c, None, Some cand_a]
         (new_BookManager None))) = [JStr ''B000000002'']
   \<and> writes (fst (importFromKindle int [Some cand_c, None, Some cand_a]
         (new_BookManager None))) = 0"
  by (simp add: importSelectedBooks_def importSelectedBooks_try_def
      importSelectedBooks_catch_def importFromKindle_def importFromKindle_step_def
      new_BookManager_def empty_metadata_def cand_a_def cand_c_def candidate_id_def
      js_or_def has_bookId_def bookIds_def Date_now_def Let_def set_books_def
      kindle_record_def normalizeBook_def spread_if_def js_set_def)

section \<open>Searching\<close>

lemma str_includes_iff: "str_includes t q \<longleftrightarrow> (\<exists>pre suf. t = pre @ q @ suf)"
proof (induction t)
  case Nil
  show ?case by auto
next
  case (Cons c cs)
  show ?case
  proof
    assume "str_includes (c # cs) q"
    then consider "take (length q) (c # cs) = q" | "str_includes cs q" by auto
    then show "\<exists>pre suf. c # cs = pre @ q @ suf"
    proof cases
      case 1
      have "c # cs = [] @ take (length q) (c # cs) @ drop (length q) (c # cs)"
        by (simp only: append_take_drop_id append_Nil)
      with 1 show ?thesis by metis
    next
      case 2
      with Cons.IH obtain pre suf where "cs = pre @ q @ suf" by blast
      then have "c # cs = (c # pre) @ q @ suf" by simp
      then show ?thesis by blast
    qed
  next
    assume "\<exists>pre suf. c # cs = pre @ q @ suf"
    then obtain pre suf where eq: "c # cs = pre @ q @ suf" by blast
    show "str_includes (c # cs) q"
    proof (cases pre)
      case Nil
      with eq have "take (length q) (c # cs) = q" by simp
      then show ?thesis by simp
    next
      case (Cons a pre')
      with eq have "cs = pre' @ q @ suf" by simp
      with Cons.IH have "str_includes cs q" by blast
      then show ?thesis by simp
    qed
  qed
qed

lemma str_includes_length: "str_includes t q \<Longrightarrow> length q \<le> length t"
  by (auto simp add: str_includes_iff)

lemma is_string_iff: "is_string v \<longleftrightarrow> (\<exists>s. v = JStr s)"
  by (cases v) auto

lemma call_toLowerCase_string:
  "is_string v \<Longrightarrow> call_toLowerCase lc v = Inr (lc (string_of v))"
  by (auto simp add: is_string_iff call_toLowerCase_def)

lemma call_toLowerCase_other: "\<not> is_string v \<Longrightarrow> call_toLowerCase lc v = Inl TypeError"
  by (cases v) (auto simp add: call_toLowerCase_def)

lemma search_match_searchable:
  assumes "searchable book"
  shows "search_match lc (lc q) book =
     Inr (lowered_includes lc (string_of (js_get book ''title'')) q
          \<or> lowered_includes lc (string_of (js_get book ''authors'')) q)"
  using assms
  by (simp add: searchable_def search_match_def call_toLowerCase_string
      str_includes_iff lowered_includes_def)

lemma search_match_error: "search_match lc lq book = Inl e \<Longrightarrow> e = TypeError"
  by (cases "js_get book ''title''"; cases "js_get book ''authors''")
     (auto simp add: search_match_def call_toLowerCase_def split: if_splits)

lemma js_filter_total:
  assumes "\<forall>x\<in>set xs. p x = Inr (P x)"
  shows "js_filter p xs = Inr (filter P xs)"
  using assms by (induction xs) auto

lemma js_filter_throws:
  assumes "\<exists>x\<in>set xs. p x = Inl TypeError"
    and "\<forall>x\<in>set xs. \<forall>e. p x = Inl e \<longrightarrow> e = TypeError"
  shows "js_filter p xs = Inl TypeError"
  using assms
proof (induction xs)
  case Nil
  then show ?case by simp
next
  case (Cons x xs)
  show ?case
  proof (cases "p x")
    case (Inl e)
    with Cons.prems(2) have "e = TypeError" by simp
    with Inl show ?thesis by simp
  next
    case (Inr keep)
    with Cons.prems have "\<exists>x\<in>set xs. p x = Inl TypeError" by auto
    with Cons.IH Cons.prems(2) have "js_filter p xs = Inl TypeError" by simp
    with Inr show ?thesis by simp
  qed
qed

text \<open>The letters of ASCII text, and what lowering does to them.\<close>

lemma of_char_ascii_lower:
  "(of_char (ascii_lower c) :: nat) = (if is_capital c then of_char c + 32 else of_char c)"
  by (simp add: ascii_lower_def is_capital_def)

lemma ascii_lower_eq_iff: "ascii_lower c = ascii_lower d \<longleftrightarrow> same_letter c d"
proof -
  have "ascii_lower c = ascii_lower d \<longleftrightarrow>
      (of_char (ascii_lower c) :: nat) = of_char (ascii_lower d)"
    by simp
  also have "\<dots> \<longleftrightarrow> same_letter c d"
    unfolding of_char_ascii_lower same_letter_def
    using of_char_eq_iff [of c d, where ?'a = nat]
    by (auto simp add: is_capital_def)
  finally show ?thesis .
qed

lemma map_eq_iff_list_all2:
  "map f xs = map f ys \<longleftrightarrow> list_all2 (\<lambda>x y. f x = f y) xs ys"
proof -
  have "list_all2 (=) (map f xs) (map f ys) = list_all2 (\<lambda>x y. f x = f y) xs ys"
    by (simp add: list_all2_map1 list_all2_map2)
  then show ?thesis by (simp add: list.rel_eq)
qed

lemma same_letters_iff: "map ascii_lower w = map ascii_lower q \<longleftrightarrow> list_all2 same_letter w q"
  by (simp add: map_eq_iff_list_all2 ascii_lower_eq_iff)

lemma contains_ignoring_case_iff:
  "contains_ignoring_case t q \<longleftrightarrow>
     (\<exists>pre suf. map ascii_lower t = pre @ map ascii_lower q @ suf)"
proof
  assume "\<exists>pre suf. map ascii_lower t = pre @ map ascii_lower q @ suf"
  then obtain pre suf where "map ascii_lower t = pre @ (map ascii_lower q @ suf)"
    by auto
  then obtain p r where t1: "t = p @ r"
    and r: "map ascii_lower q @ suf = map ascii_lower r"
    unfolding map_eq_append_conv by blast
  from r [symmetric] obtain w u where "r = w @ u" and "map ascii_lower q = map ascii_lower w"
    unfolding map_eq_append_conv by blast
  with t1 have "t = p @ w @ u \<and> list_all2 same_letter w q"
    by (simp add: same_letters_iff [symmetric])
  then show "contains_ignoring_case t q"
    unfolding contains_ignoring_case_def by blast
next
  assume "contains_ignoring_case t q"
  then obtain pre w suf where "t = pre @ w @ suf" and "map ascii_lower w = map ascii_lower q"
    unfolding contains_ignoring_case_def same_letters_iff by blast
  then have "map ascii_lower t = map ascii_lower pre @ map ascii_lower q @ map ascii_lower suf"
    by simp
  then show "\<exists>pre suf. map ascii_lower t = pre @ map ascii_lower q @ suf"
    by blast
qed

lemma contains_ignoring_case_code:
  "contains_ignoring_case t q \<longleftrightarrow> str_includes (map ascii_lower t) (map ascii_lower q)"
  by (simp add: contains_ignoring_case_iff str_includes_iff)

lemma lowered_includes_ascii:
  assumes "lowers_ascii lc" and "is_ascii t" and "is_ascii q"
  shows "lowered_includes lc t q \<longleftrightarrow> contains_ignoring_case t q"
  using assms
  by (simp add: lowered_includes_def lowers_ascii_def contains_ignoring_case_iff)

lemma lowers_ascii_letters:
  assumes "lowers_ascii lc"
  shows "lc (replicate n (CHR ''a'')) = replicate n (CHR ''a'')"
proof -
  have "is_ascii (replicate n (CHR ''a''))"
    by (simp add: is_ascii_def list_all_iff)
  moreover have "ascii_lower (CHR ''a'') = CHR ''a''"
    by (simp add: ascii_lower_def is_capital_def)
  ultimately show ?thesis
    using assms by (simp add: lowers_ascii_def)
qed

text \<open>A query whose lowered form is longer than the lowered title is not included in
  it; such a query fails on a record that is not searchable.\<close>

lemma search_match_long_query:
  assumes "\<not> searchable book"
    and "length (lc (string_of (js_get book ''title''))) < length (lc q)"
  shows "search_match lc (lc q) book = Inl TypeError"
proof (cases "is_string (js_get book ''title'')")
  case False
  then show ?thesis
    by (simp add: search_match_def call_toLowerCase_other)
next
  case True
  with assms(1) have au: "\<not> is_string (js_get book ''authors'')"
    by (simp add: searchable_def)
  have "\<not> str_includes (lc (string_of (js_get book ''title''))) (lc q)"
    using assms(2) str_includes_length by fastforce
  then show ?thesis
    by (simp add: search_match_def call_toLowerCase_string [OF True]
        call_toLowerCase_other [OF au])
qed

lemma normalizeBook_title_authors:
  "js_get (normalizeBook raw key) ''title'' = js_get raw ''title'' \<and>
   js_get (normalizeBook raw key) ''authors'' = js_get raw ''authors''"
  by (simp add: normalizeBook_def js_get_spread_if)

text \<open>
  C10, as the claim states it, fails: the title of the record contains the query (the
  capital sigma, in the same case), yet the search does not return the record, because
  the title is lowered as a word and its last letter becomes the final sigma.
\<close>

theorem searchBooks_final_sigma_counterexample:
  "searchable sigma_book
   \<and> js_get sigma_book ''title'' = JStr (capital_alpha @ capital_sigma)
   \<and> contains_ignoring_case (capital_alpha @ capital_sigma) capital_sigma
   \<and> searchBooks lower_with_final_sigma capital_sigma
        (set_books [sigma_book] (new_BookManager None)) = Inr []"
proof -
  have "searchable sigma_book"
    and "js_get sigma_book ''title'' = JStr (capital_alpha @ capital_sigma)"
    by (simp_all add: searchable_def sigma_book_def)
  moreover have "contains_ignoring_case (capital_alpha @ capital_sigma) capital_sigma"
  proof -
    have "list_all2 same_letter capital_sigma capital_sigma"
      by (simp add: list_all2_conv_all_nth same_letter_def)
    moreover have "capital_alpha @ capital_sigma = capital_alpha @ capital_sigma @ []"
      by simp
    ultimately show ?thesis
      unfolding contains_ignoring_case_def by blast
  qed
  moreover have "searchBooks lower_with_final_sigma capital_sigma
        (set_books [sigma_book] (new_BookManager None)) = Inr []"
    by (simp add: searchBooks_def search_match_def call_toLowerCase_def sigma_book_def
        lower_with_final_sigma_def capital_alpha_def capital_sigma_def set_books_def
        new_BookManager_def ascii_lower_def is_capital_def)
  ultimately show ?thesis by blast
qed

text \<open>
  C10, amended. For every lower-casing that lowers ASCII text as the runtime does:
  \<open>searchBooks\<close> returns for every query exactly when every record of the collection
  carries a string \<open>title\<close> and a string \<open>authors\<close>; for a collection with a record
  whose \<open>title\<close> or \<open>authors\<close> is not a string there is a query on which it throws
  instead of skipping the record, and \<open>normalizeBook\<close> copies \<open>title\<close> and
  \<open>authors\<close> verbatim, so a raw record that lacks them normalises to such a record.
  Under the precondition \<open>searchBooks\<close> returns, in collection order, exactly the
  records whose lowered title or lowered authors includes the lowered query (for any
  lower-casing); when titles, authors and query are ASCII text these are exactly the
  records whose title or authors contains the query case-insensitively.
\<close>

theorem searchBooks_total_iff_searchable:
  "((\<forall>book\<in>set (books (library s)). searchable book) \<longrightarrow>
      searchBooks lc query s =
        Inr (filter (\<lambda>book.
               lowered_includes lc (string_of (js_get book ''title'')) query
               \<or> lowered_includes lc (string_of (js_get book ''authors'')) query)
             (books (library s))))
   \<and> (lowers_ascii lc \<and> is_ascii query
        \<and> (\<forall>book\<in>set (books (library s)). searchable book
              \<and> is_ascii (string_of (js_get book ''title''))
              \<and> is_ascii (string_of (js_get book ''authors''))) \<longrightarrow>
      searchBooks lc query s =
        Inr (filter (\<lambda>book.
               contains_ignoring_case (string_of (js_get book ''title'')) query
               \<or> contains_ignoring_case (string_of (js_get book ''authors'')) query)
             (books (library s))))
   \<and> (lowers_ascii lc \<and> (\<exists>book\<in>set (books (library s)). \<not> searchable book) \<longrightarrow>
      (\<exists>q. searchBooks lc q s = Inl TypeError))
   \<and> (lowers_ascii lc \<longrightarrow>
      ((\<forall>q. \<exists>found. searchBooks lc q s = Inr found) \<longleftrightarrow>
       (\<forall>book\<in>set (books (library s)). searchable book)))
   \<and> (\<forall>raw key. js_get (normalizeBook raw key) ''title'' = js_get raw ''title''
         \<and> js_get (normalizeBook raw key) ''authors'' = js_get raw ''authors''
         \<and> (\<not> is_string (js_get raw ''title'') \<or> \<not> is_string (js_get raw ''authors'')
              \<longrightarrow> \<not> searchable (normalizeBook raw key)))"
proof -
  have total: "searchBooks lc q s =
        Inr (filter (\<lambda>book.
               lowered_includes lc (string_of (js_get book ''title'')) q
               \<or> lowered_includes lc (string_of (js_get book ''authors'')) q)
             (books (library s)))"
    if "\<forall>book\<in>set (books (library s)). searchable book" for q
    unfolding searchBooks_def
    by (rule js_filter_total) (use that in \<open>simp add: search_match_searchable\<close>)
  have ascii: "searchBooks lc query s =
        Inr (filter (\<lambda>book.
               contains_ignoring_case (string_of (js_get book ''title'')) query
               \<or> contains_ignoring_case (string_of (js_get book ''authors'')) query)
             (books (library s)))"
    if lc: "lowers_ascii lc" and q: "is_ascii query"
      and bs: "\<forall>book\<in>set (books (library s)). searchable book
              \<and> is_ascii (string_of (js_get book ''title''))
              \<and> is_ascii (string_of (js_get book ''authors''))"
    unfolding searchBooks_def
  proof (rule js_filter_total, rule ballI)
    fix book assume "book \<in> set (books (library s))"
    with bs have "searchable book" and "is_ascii (string_of (js_get book ''title''))"
      and "is_ascii (string_of (js_get book ''authors''))"
      by auto
    then show "search_match lc (lc query) book =
        Inr (contains_ignoring_case (string_of (js_get book ''title'')) query
             \<or> contains_ignoring_case (string_of (js_get book ''authors'')) query)"
      by (simp add: search_match_searchable lowered_includes_ascii [OF lc _ q])
  qed
  have throws: "\<exists>q. searchBooks lc q s = Inl TypeError"
    if lc: "lowers_ascii lc" and bad: "\<exists>book\<in>set (books (library s)). \<not> searchable book"
  proof -
    from bad obtain book where book: "book \<in> set (books (library s))" "\<not> searchable book"
      by blast
    let ?q = "replicate (Suc (length (lc (string_of (js_get book ''title''))))) (CHR ''a'')"
    have "lc ?q = ?q"
      by (rule lowers_ascii_letters [OF lc])
    then have "length (lc (string_of (js_get book ''title''))) < length (lc ?q)"
      by simp
    with book(2) have "search_match lc (lc ?q) book = Inl TypeError"
      by (rule search_match_long_query)
    with book(1) have "\<exists>x\<in>set (books (library s)). search_match lc (lc ?q) x = Inl TypeError"
      by blast
    then have "js_filter (search_match lc (lc ?q)) (books (library s)) = Inl TypeError"
      by (rule js_filter_throws) (use search_match_error in blast)
    then show ?thesis
      unfolding searchBooks_def by blast
  qed
  have iff: "(\<forall>q. \<exists>found. searchBooks lc q s = Inr found) \<longleftrightarrow>
      (\<forall>book\<in>set (books (library s)). searchable book)" if lc: "lowers_ascii lc"
  proof
    assume ok: "\<forall>q. \<exists>found. searchBooks lc q s = Inr found"
    show "\<forall>book\<in>set (books (library s)). searchable book"
    proof (rule ccontr)
      assume "\<not> (\<forall>book\<in>set (books (library s)). searchable book)"
      then have "\<exists>q. searchBooks lc q s = Inl TypeError"
        using throws [OF lc] by blast
      then obtain q where "searchBooks lc q s = Inl TypeError" ..
      moreover from ok obtain found where "searchBooks lc q s = Inr found" by blast
      ultimately show False by simp
    qed
  next
    assume "\<forall>book\<in>set (books (library s)). searchable book"
    then show "\<forall>q. \<exists>found. searchBooks lc q s = Inr found"
      using total by blast
  qed
  have norm: "\<forall>raw key. js_get (normalizeBook raw key) ''title'' = js_get raw ''title''
         \<and> js_get (normalizeBook raw key) ''authors'' = js_get raw ''authors''
         \<and> (\<not> is_string (js_get raw ''title'') \<or> \<not> is_string (js_get raw ''authors'')
              \<longrightarrow> \<not> searchable (normalizeBook raw key))"
    by (simp add: normalizeBook_title_authors searchable_def)
  from total ascii throws iff norm show ?thesis by blast
qed

theorem searchBooks_total_iff_searchable_witness:
  "lowers_ascii lower_with_final_sigma
   \<and> searchable book_one
   \<and> is_ascii ''t1'' \<and> is_ascii ''zz''
   \<and> is_ascii (string_of (js_get book_one ''title''))
   \<and> is_ascii (string_of (js_get book_one ''authors''))
   \<and> searchBooks lower_with_final_sigma ''t1'' shelf_one = Inr [book_one]
   \<and> searchBooks lower_with_final_sigma ''zz'' shelf_one = Inr []
   \<and> \<not> searchable untitled
   \<and> (\<exists>q. searchBooks lower_with_final_sigma q (set_books [book_one, untitled] shelf_one)
          = Inl TypeError)"
proof -
  have lc: "lowers_ascii lower_with_final_sigma"
    unfolding lowers_ascii_def
  proof (intro allI impI)
    fix s assume "is_ascii s"
    then have "s \<noteq> capital_alpha @ capital_sigma" and "s \<noteq> capital_sigma"
      by (auto simp add: is_ascii_def capital_alpha_def capital_sigma_def)
    then show "lower_with_final_sigma s = map ascii_lower s"
      by (simp add: lower_with_final_sigma_def)
  qed
  have s1: "searchable book_one"
    by (simp add: searchable_def book_one_def)
  have bs: "books (library shelf_one) = [book_one]"
    by (simp add: shelf_one_def)
  have a1: "is_ascii ''t1''" and a2: "is_ascii ''zz''"
    and a3: "is_ascii (string_of (js_get book_one ''title''))"
    and a4: "is_ascii (string_of (js_get book_one ''authors''))"
    by (simp_all add: is_ascii_def book_one_def)
  have hit: "contains_ignoring_case (string_of (js_get book_one ''title'')) ''t1''"
    unfolding contains_ignoring_case_code by code_simp
  have miss: "\<not> contains_ignoring_case (string_of (js_get book_one ''title'')) ''zz''"
    "\<not> contains_ignoring_case (string_of (js_get book_one ''authors'')) ''zz''"
    unfolding contains_ignoring_case_code by code_simp+
  have s2: "\<not> searchable untitled"
    by (simp add: searchable_def untitled_def normalizeBook_def js_get_spread_if)
  have ascii: "searchBooks lower_with_final_sigma q shelf_one =
        Inr (filter (\<lambda>book.
               contains_ignoring_case (string_of (js_get book ''title'')) q
               \<or> contains_ignoring_case (string_of (js_get book ''authors'')) q)
             [book_one])" if "is_ascii q" for q
  proof -
    have "\<forall>book\<in>set (books (library shelf_one)). searchable book
              \<and> is_ascii (string_of (js_get book ''title''))
              \<and> is_ascii (string_of (js_get book ''authors''))"
      using s1 a3 a4 by (simp add: bs)
    with searchBooks_total_iff_searchable [of shelf_one lower_with_final_sigma q] lc that
    have "searchBooks lower_with_final_sigma q shelf_one =
        Inr (filter (\<lambda>book.
               contains_ignoring_case (string_of (js_get book ''title'')) q
               \<or> contains_ignoring_case (string_of (js_get book ''authors'')) q)
             (books (library shelf_one)))"
      by blast
    then show ?thesis
      unfolding bs .
  qed
  have r1: "searchBooks lower_with_final_sigma ''t1'' shelf_one = Inr [book_one]"
    unfolding ascii [OF a1] using hit by simp
  have r2: "searchBooks lower_with_final_sigma ''zz'' shelf_one = Inr []"
    unfolding ascii [OF a2] using miss by simp
  have r3: "\<exists>q. searchBooks lower_with_final_sigma q
      (set_books [book_one, untitled] shelf_one) = Inl TypeError"
  proof -
    have "\<exists>book\<in>set (books (library (set_books [book_one, untitled] shelf_one))).
        \<not> searchable book"
      using s2 by (simp add: set_books_def)
    with searchBooks_total_iff_searchable
      [of "set_books [book_one, untitled] shelf_one" lower_with_final_sigma] lc
    show ?thesis
      by blast
  qed
  from lc s1 a1 a2 a3 a4 r1 r2 s2 r3 show ?thesis by blast
qed

section \<open>Uniqueness of identifiers\<close>

lemma bookIds_saveLibrary [simp]: "bookIds (saveLibrary s) = bookIds s"
  by (simp add: bookIds_def)

lemma bookIds_set_metadata [simp]: "bookIds (set_metadata md s) = bookIds s"
  by (simp add: bookIds_def set_metadata_def)

lemma bookIds_recount_all [simp]: "bookIds (recount_all s) = bookIds s"
  by (simp add: bookIds_def)

lemma bookIds_ticks [simp]: "bookIds (s\<lparr>ticks := t\<rparr>) = bookIds s"
  by (simp add: bookIds_def)

lemma bookIds_Date_now [simp]: "bookIds (snd (Date_now clock s)) = bookIds s"
  by (simp add: Date_now_def)

lemma bookIds_set_books [simp]:
  "bookIds (set_books bs s) = map (\<lambda>book. js_get book ''bookId'') bs"
  by (simp add: bookIds_def)

lemma findIndex_None_bookIds:
  "findIndex (has_bookId i) (books (library s)) = None \<longleftrightarrow> i \<notin> set (bookIds s)"
  by (auto simp add: findIndex_None_iff has_bookId_def bookIds_def)

lemma find_None_bookIds:
  "find (has_bookId i) (books (library s)) = None \<longleftrightarrow> i \<notin> set (bookIds s)"
  by (auto simp add: find_None_iff has_bookId_def bookIds_def)

lemma map_list_update_same:
  "i < length xs \<Longrightarrow> f y = f (xs ! i) \<Longrightarrow> map f (xs[i := y]) = map f xs"
  by (simp add: map_update list_update_same_conv)

lemma distinct_splice1: "distinct ys \<Longrightarrow> distinct (splice1 i ys)"
proof (induction ys arbitrary: i)
  case Nil
  then show ?case by (simp add: splice1_def)
next
  case (Cons y ys)
  show ?case
  proof (cases i)
    case 0
    with Cons.prems show ?thesis by (simp add: splice1_def)
  next
    case (Suc j)
    have "y \<notin> set (take j ys)" and "y \<notin> set (drop (Suc j) ys)"
      using Cons.prems by (auto dest: in_set_takeD in_set_dropD)
    moreover have "distinct (splice1 j ys)"
      using Cons.prems by (simp add: Cons.IH)
    ultimately show ?thesis
      using Suc by (simp add: splice1_def)
  qed
qed

lemma map_splice1: "map f (splice1 i xs) = splice1 i (map f xs)"
  by (simp add: splice1_def take_map drop_map)

lemma importFromKindle_step_unique:
  assumes "distinct (bookIds s)"
  shows "distinct (bookIds (fst (importFromKindle_step clock c (s, r))))"
proof (cases "findIndex (has_bookId (candidate_id c)) (books (library s))")
  case None
  then have "candidate_id c \<notin> set (bookIds s)"
    by (simp add: findIndex_None_bookIds)
  with assms show ?thesis
    by (simp add: importFromKindle_step_new [OF None] kindle_record_bookId bookIds_def)
next
  case (Some i)
  note bound = findIndex_Some_bound [OF Some]
  have "map (\<lambda>book. js_get book ''bookId'')
          ((books (library s))[i := assign_kindle_fields c (books (library s) ! i)])
        = map (\<lambda>book. js_get book ''bookId'') (books (library s))"
    using bound by (simp add: map_list_update_same js_get_assign_kindle_fields)
  with assms show ?thesis
    by (simp add: importFromKindle_step_found [OF Some] bookIds_def)
qed

lemma importFromKindle_loop_unique:
  assumes "distinct (bookIds (fst sr))"
  shows "distinct (bookIds (fst (importFromKindle_loop clock batch sr)))"
  using assms
proof (induction batch arbitrary: sr)
  case Nil
  then show ?case by simp
next
  case (Cons c batch)
  show ?case
  proof (cases c)
    case None
    with Cons.prems show ?thesis by simp
  next
    case (Some kb)
    obtain s r where sr: "sr = (s, r)" by (cases sr)
    have "distinct (bookIds (fst (importFromKindle_step clock kb sr)))"
      using Cons.prems unfolding sr by (simp add: importFromKindle_step_unique)
    then show ?thesis
      using Some by (simp add: Cons.IH)
  qed
qed

lemma importFromKindle_unique:
  assumes "distinct (bookIds s)"
  shows "distinct (bookIds (fst (importFromKindle clock batch s)))"
proof -
  let ?r0 = "\<lparr>total = length batch, added = 0, updated = 0, skipped = 0\<rparr>"
  have loop: "distinct (bookIds (fst (importFromKindle_loop clock batch (s, ?r0))))"
    by (rule importFromKindle_loop_unique) (simp add: assms)
  show ?thesis
  proof (cases "importFromKindle_loop clock batch (s, ?r0)")
    case (Pair s1 res)
    with loop have "distinct (bookIds s1)" by simp
    then show ?thesis
      by (cases res) (simp_all add: importFromKindle_def Pair Let_def)
  qed
qed

lemma importSelectedBooks_loop_unique:
  assumes "distinct (bookIds s)" and "distinct (batch_ids batch)"
    and "\<forall>i\<in>set (batch_ids batch). i \<in> set (bookIds s) \<longrightarrow> i \<in> ids"
  shows "distinct (bookIds (fst (importSelectedBooks_loop clock ids batch (s, b))))"
  using assms
proof (induction batch arbitrary: s b)
  case Nil
  then show ?case by simp
next
  case (Cons c batch)
  show ?case
  proof (cases c)
    case None
    with Cons.prems(1) show ?thesis
      by (simp add: importSelectedBooks_try_def importSelectedBooks_catch_def)
  next
    case (Some book)
    show ?thesis
    proof (cases "candidate_id book \<in> ids")
      case True
      have "distinct (bookIds (fst (importSelectedBooks_loop clock ids batch
              (s, b\<lparr>duplicateBooks := duplicateBooks b @
                      [duplicate_entry book (candidate_id book)]\<rparr>))))"
        using Cons.prems Some by (intro Cons.IH) simp_all
      then show ?thesis
        using Some True by (simp add: importSelectedBooks_try_object)
    next
      case False
      let ?y = "kindle_record book (clock (ticks s))"
      let ?s = "set_books (books (library s) @ [?y]) (s\<lparr>ticks := Suc (ticks s)\<rparr>)"
      have fresh: "candidate_id book \<notin> set (bookIds s)"
        using Cons.prems(3) Some False by auto
      have ids: "bookIds ?s = bookIds s @ [candidate_id book]"
        by (simp add: kindle_record_bookId bookIds_def)
      have "distinct (bookIds (fst (importSelectedBooks_loop clock ids batch
              (?s, b\<lparr>importedBooks := importedBooks b @ [?y]\<rparr>))))"
      proof (rule Cons.IH)
        show "distinct (bookIds ?s)"
          unfolding ids using Cons.prems(1) fresh by simp
        show "distinct (batch_ids batch)"
          using Cons.prems(2) Some by simp
        show "\<forall>i\<in>set (batch_ids batch). i \<in> set (bookIds ?s) \<longrightarrow> i \<in> ids"
          unfolding ids using Cons.prems(2,3) Some by auto
      qed
      then show ?thesis
        using Some False by (simp add: importSelectedBooks_try_object)
    qed
  qed
qed

lemma importSelectedBooks_unique:
  assumes "distinct (bookIds s)" and "distinct (batch_ids batch)"
  shows "distinct (bookIds (fst (importSelectedBooks clock batch s)))"
proof -
  let ?ids = "set (map (\<lambda>book. js_get book ''bookId'') (books (library s)))"
  let ?b0 = "\<lparr>importedBooks = [], duplicateBooks = [], errorBooks = []\<rparr>"
  have loop: "distinct (bookIds (fst (importSelectedBooks_loop clock ?ids batch (s, ?b0))))"
    using assms by (intro importSelectedBooks_loop_unique) (simp_all add: bookIds_def)
  show ?thesis
  proof (cases "importSelectedBooks_loop clock ?ids batch (s, ?b0)")
    case (Pair s1 res)
    with loop have "distinct (bookIds s1)" by simp
    then show ?thesis
      unfolding importSelectedBooks_def Let_def Pair
      by (cases res) simp_all
  qed
qed

lemma addBookManually_cases:
  "addBookManually clock bookData s = (s, Inl InvalidIdentifier)
   \<or> addBookManually clock bookData s = (s, Inl TypeError)
   \<or> addBookManually clock bookData s = (s, Inl AlreadyInLibrary)
   \<or> (\<exists>newBook s'.
        addBookManually clock bookData s = (s', Inr newBook)
        \<and> books (library s') = books (library s) @ [newBook]
        \<and> js_get newBook ''bookId'' \<notin> set (bookIds s)
        \<and> js_get newBook ''source'' =
            js_or (js_get bookData ''source'') (JStr ''manual_add'')
        \<and> metadata (library s') = (metadata (library s))
             \<lparr>totalBooks := Suc (length (books (library s))),
              manuallyAdded := count_source ''manual_add'' (books (library s) @ [newBook])\<rparr>)"
proof -
  let ?id = "js_or (js_get bookData ''bookId'') (js_get bookData ''asin'')"
  show ?thesis
  proof (cases "truthy ?id")
    case False
    then show ?thesis by (simp add: addBookManually_def Let_def)
  next
    case True
    show ?thesis
    proof (cases "isValidBookId ?id")
      case (Inl e)
      then have "e = TypeError"
        by (cases ?id) (auto simp add: isValidBookId_def split: if_splits)
      with Inl True show ?thesis by (simp add: addBookManually_def Let_def)
    next
      case (Inr valid)
      show ?thesis
      proof (cases "truthy valid")
        case False
        with Inr True show ?thesis by (simp add: addBookManually_def Let_def)
      next
        case valid: True
        show ?thesis
        proof (cases "find (has_bookId ?id) (books (library s)) = None")
          case False
          with Inr True valid show ?thesis by (simp add: addBookManually_def Let_def)
        next
          case fresh: True
          then have "?id \<notin> set (bookIds s)"
            by (simp add: find_None_bookIds)
          with Inr True valid fresh show ?thesis
            by (simp add: addBookManually_def Let_def Date_now_def set_books_def
                set_metadata_def saveLibrary_def)
        qed
      qed
    qed
  qed
qed

lemma addBookManually_unique:
  assumes "distinct (bookIds s)"
  shows "distinct (bookIds (fst (addBookManually clock bookData s)))"
  using addBookManually_cases [of clock bookData s] assms
  by (auto simp add: bookIds_def)

lemma books_fetchBookDataFromAmazon [simp]:
  "books (library (fst (fetchBookDataFromAmazon clock asin r1 r2 s))) = books (library s)"
  by (auto simp add: fetchBookDataFromAmazon_def fetchFromGoogleBooks_def
      generateSmartBookData_def Date_now_def
      split: reply.splits list.splits)

lemma addBookFromAmazonUrl_unique:
  assumes "distinct (bookIds s)"
  shows "distinct (bookIds (fst (addBookFromAmazonUrl clock m r1 r2 url s)))"
proof (cases "extractASINFromUrl m url")
  case None
  with assms show ?thesis by (simp add: addBookFromAmazonUrl_def)
next
  case (Some asin)
  have "distinct (bookIds (fst (fetchBookDataFromAmazon clock asin r1 r2 s)))"
    using assms by (simp add: bookIds_def)
  then have "distinct (bookIds (fst (addBookManually clock
      (snd (fetchBookDataFromAmazon clock asin r1 r2 s))
      (fst (fetchBookDataFromAmazon clock asin r1 r2 s)))))"
    by (rule addBookManually_unique)
  with assms Some show ?thesis
    by (simp add: addBookFromAmazonUrl_def)
qed

lemma fetchFromGoogleBooksById_cases:
  "(\<exists>e. fetchFromGoogleBooksById clock volumeId r s = (s, Inl e))
   \<or> (\<exists>s1 bookData. fetchFromGoogleBooksById clock volumeId r s = (s1, Inr bookData)
        \<and> library s1 = library s
        \<and> js_get bookData ''bookId'' = JStr volumeId
        \<and> js_get bookData ''source'' = JStr ''google_books'')"
  by (cases r) (auto simp add: fetchFromGoogleBooksById_def Let_def Date_now_def
      split: option.splits)

lemma addBookFromGoogleBooks_cases:
  "library (fst (addBookFromGoogleBooks clock m r urlOrId s)) = library s
   \<or> (\<exists>bookData. js_get bookData ''bookId'' \<notin> set (bookIds s)
        \<and> js_get bookData ''source'' = JStr ''google_books''
        \<and> books (library (fst (addBookFromGoogleBooks clock m r urlOrId s)))
            = books (library s) @ [bookData]
        \<and> metadata (library (fst (addBookFromGoogleBooks clock m r urlOrId s)))
            = (metadata (library s))\<lparr>totalBooks := Suc (length (books (library s)))\<rparr>)"
proof -
  define extracted where "extracted =
            (if str_includes urlOrId ''google.com'' \<or> str_includes urlOrId ''play.google.com''
             then (case extractVolumeIdFromGoogleUrl m urlOrId of
                     None \<Rightarrow> None
                   | Some v \<Rightarrow> if v = [] then None else Some v)
             else Some urlOrId)"
  show ?thesis
  proof (cases extracted)
    case None
    then show ?thesis
      unfolding addBookFromGoogleBooks_def Let_def extracted_def [symmetric] by simp
  next
    case (Some volumeId)
    show ?thesis
    proof (cases "find (has_bookId (JStr volumeId)) (books (library s)) = None")
      case False
      with Some show ?thesis
        unfolding addBookFromGoogleBooks_def Let_def extracted_def [symmetric] by simp
    next
      case True
      then have fresh: "JStr volumeId \<notin> set (bookIds s)"
        by (simp add: find_None_bookIds)
      from fetchFromGoogleBooksById_cases [of clock volumeId r s]
      show ?thesis
      proof (elim disjE exE conjE)
        fix e assume "fetchFromGoogleBooksById clock volumeId r s = (s, Inl e)"
        with Some True show ?thesis
          unfolding addBookFromGoogleBooks_def Let_def extracted_def [symmetric] by simp
      next
        fix s1 bookData
        assume "fetchFromGoogleBooksById clock volumeId r s = (s1, Inr bookData)"
          and "library s1 = library s"
          and "js_get bookData ''bookId'' = JStr volumeId"
          and "js_get bookData ''source'' = JStr ''google_books''"
        with Some True fresh show ?thesis
          unfolding addBookFromGoogleBooks_def Let_def extracted_def [symmetric]
          by (auto simp add: set_books_def set_metadata_def saveLibrary_def)
      qed
    qed
  qed
qed

lemma addBookFromGoogleBooks_unique:
  assumes "distinct (bookIds s)"
  shows "distinct (bookIds (fst (addBookFromGoogleBooks clock m r urlOrId s)))"
  using addBookFromGoogleBooks_cases [of clock m r urlOrId s] assms
  by (auto simp add: bookIds_def)

lemma updateBook_unique:
  assumes "distinct (bookIds s)" and "''bookId'' \<notin> fst ` set updates"
  shows "distinct (bookIds (fst (updateBook bookId updates s)))"
proof (cases "findIndex (has_bookId bookId) (books (library s))")
  case None
  with assms show ?thesis by (simp add: updateBook_def)
next
  case (Some i)
  let ?y = "fold (apply_update updates) (map fst updates) (books (library s) ! i)"
  have "js_get ?y ''bookId'' = js_get (books (library s) ! i) ''bookId''"
    using assms(2) by (simp add: js_get_fold_apply_update_other)
  then have "map (\<lambda>book. js_get book ''bookId'') ((books (library s))[i := ?y])
      = map (\<lambda>book. js_get book ''bookId'') (books (library s))"
    using findIndex_Some_bound [OF Some] by (simp add: map_list_update_same)
  with assms(1) show ?thesis
    by (simp add: updateBook_found [OF Some] bookIds_def)
qed

lemma deleteBook_unique:
  assumes "distinct (bookIds s)"
  shows "distinct (bookIds (fst (deleteBook bookId hardDelete s)))"
proof (cases "findIndex (has_bookId bookId) (books (library s))")
  case None
  with assms show ?thesis by (simp add: deleteBook_def)
next
  case (Some i)
  with assms show ?thesis
    by (simp add: deleteBook_def map_splice1 distinct_splice1 bookIds_def)
qed

lemma exec_unique:
  assumes "distinct (bookIds s)" and "keeps_ids op"
  shows "distinct (bookIds (exec clock m op s))"
proof (cases op)
  case (ImportFromKindle batch)
  with assms show ?thesis by (simp add: importFromKindle_unique)
next
  case (ImportSelectedBooks batch)
  with assms show ?thesis by (simp add: importSelectedBooks_unique)
next
  case (AddBookManually bookData)
  with assms show ?thesis by (simp add: addBookManually_unique)
next
  case (AddBookFromAmazonUrl url r1 r2)
  with assms show ?thesis by (simp add: addBookFromAmazonUrl_unique)
next
  case (AddBookFromGoogleBooks urlOrId r)
  with assms show ?thesis by (simp add: addBookFromGoogleBooks_unique)
next
  case (UpdateBook bookId updates)
  with assms show ?thesis by (simp add: updateBook_unique)
next
  case (DeleteBook bookId hardDelete)
  with assms show ?thesis by (simp add: deleteBook_unique)
next
  case ClearAllBooks
  then show ?thesis by (simp add: clearAllBooks_def)
qed

lemma run_unique:
  assumes "distinct (bookIds s)" and "list_all keeps_ids ops"
  shows "distinct (bookIds (run clock m ops s))"
  using assms unfolding run_def
proof (induction ops arbitrary: s)
  case Nil
  then show ?case by simp
next
  case (Cons op ops)
  then show ?case by (simp add: exec_unique)
qed

text \<open>
  C1, as the claim states it, fails: two manual additions followed by an update that
  rewrites the first record's \<open>bookId\<close> to the second's leave two records with one
  \<open>bookId\<close>.
\<close>

theorem unique_bookIds_counterexample:
  "\<not> distinct (bookIds (run int (\<lambda>p url. None)
      [AddBookManually [(''bookId'', JStr ''B000000001'')],
       AddBookManually [(''bookId'', JStr ''B000000002'')],
       UpdateBook (JStr ''B000000001'') [(''bookId'', JStr ''B000000002'')]]
      (new_BookManager None)))"
  by (simp add: run_def addBookManually_def updateBook_def isValidBookId_def
      trim_is_empty_def ascii_space_def space3_def new_BookManager_def empty_metadata_def
      has_bookId_def js_or_def Date_now_def Let_def set_books_def set_metadata_def
      saveLibrary_def recount_all_def bookIds_def apply_update_def js_set_def)

text \<open>
  C1, amended. Starting from the empty collection of a new manager, after every sequence
  of operations (bulk imports in the merge-with-update mode, insert-only imports whose
  candidates carry pairwise distinct identifiers, single adds by manual entry, by
  marketplace link or by catalogue lookup, updates whose map does not name \<open>bookId\<close>,
  deletes in either mode, clear-all), whether the operations return or throw, no two
  records of the collection share a \<open>bookId\<close>.
\<close>

theorem unique_bookIds_invariant:
  assumes "list_all keeps_ids ops"
  shows "distinct (bookIds (run clock m ops (new_BookManager stored)))"
proof (rule run_unique [OF _ assms])
  show "distinct (bookIds (new_BookManager stored))"
    by (simp add: bookIds_def new_BookManager_def)
qed

theorem unique_bookIds_invariant_witness:
  "list_all keeps_ids sample_ops
   \<and> distinct (bookIds (run int sample_matcher sample_ops (new_BookManager None)))"
proof -
  have ok: "list_all keeps_ids sample_ops"
    by (simp add: sample_ops_def cand_a_def cand_c_def candidate_id_def js_or_def)
  from unique_bookIds_invariant [OF ok, of int sample_matcher None] ok
  show ?thesis by blast
qed

section \<open>Consistency of the counters\<close>

text \<open>
  C5. A manual add whose data names the bulk-import source: \<open>addBookManually\<close> assigns
  \<open>totalBooks\<close> and \<open>manuallyAdded\<close> only, so after it the collection holds one record
  of source \<open>kindle_import\<close> while \<open>importedFromKindle\<close> is still 0.
\<close>

theorem addBookManually_stale_import_counter:
  "\<exists>s newBook.
      addBookManually int
        [(''bookId'', JStr ''B000000001''), (''source'', JStr ''kindle_import'')]
        (new_BookManager None) = (s, Inr newBook)
    \<and> books (library s) = [newBook]
    \<and> js_get newBook ''source'' = JStr ''kindle_import''
    \<and> count_source ''kindle_import'' (books (library s)) = 1
    \<and> importedFromKindle (metadata (library s)) = 0
    \<and> totalBooks (metadata (library s)) = 1
    \<and> manuallyAdded (metadata (library s)) = 0
    \<and> \<not> counts_consistent s"
  by (simp add: addBookManually_def isValidBookId_def trim_is_empty_def ascii_space_def
      space3_def new_BookManager_def empty_metadata_def has_bookId_def js_or_def
      Date_now_def Let_def set_books_def set_metadata_def saveLibrary_def
      count_source_def counts_consistent_def)

text \<open>
  The other operations keep the counters consistent: from the empty collection, every
  sequence of operations without a manual add that names the source \<open>kindle_import\<close>
  (and without \<open>null\<close> candidates) leaves the three counters equal to the counts.
\<close>

lemma count_source_append:
  "count_source src (xs @ ys) = count_source src xs + count_source src ys"
  by (simp add: count_source_def)

lemma count_source_map:
  "count_source src xs =
     length (filter (\<lambda>v. v = JStr src) (map (\<lambda>book. js_get book ''source'') xs))"
  by (simp add: count_source_def filter_map comp_def)

lemma count_source_list_update:
  assumes "i < length xs" and "js_get y ''source'' = js_get (xs ! i) ''source''"
  shows "count_source src (xs[i := y]) = count_source src xs"
  using assms by (simp add: count_source_map map_list_update_same)

lemma count_source_single:
  "count_source src [book] = (if js_get book ''source'' = JStr src then 1 else 0)"
  by (simp add: count_source_def)

lemma counts_consistent_recount [simp]: "counts_consistent (recount_all s)"
  by (simp add: counts_consistent_def recount_all_def set_metadata_def)

lemma counts_consistent_saveLibrary [simp]:
  "counts_consistent (saveLibrary s) = counts_consistent s"
  by (simp add: counts_consistent_def saveLibrary_def)

lemma step_manual_count:
  "count_source ''manual_add'' (books (library (fst (importFromKindle_step clock c (s, r)))))
     = count_source ''manual_add'' (books (library s))"
proof (cases "findIndex (has_bookId (candidate_id c)) (books (library s))")
  case None
  show ?thesis
    by (simp add: importFromKindle_step_new [OF None] count_source_append
        count_source_single kindle_record_source)
next
  case (Some i)
  show ?thesis
    using findIndex_Some_bound [OF Some]
    by (simp add: importFromKindle_step_found [OF Some] count_source_list_update
        js_get_assign_kindle_fields)
qed

lemma step_metadata:
  "metadata (library (fst (importFromKindle_step clock c (s, r)))) = metadata (library s)"
  by (simp add: importFromKindle_step_def Let_def Date_now_def set_books_def
      split: option.splits)

lemma fold_step_manual_count:
  "count_source ''manual_add''
      (books (library (fst (fold (importFromKindle_step clock) cs sr))))
     = count_source ''manual_add'' (books (library (fst sr)))
   \<and> metadata (library (fst (fold (importFromKindle_step clock) cs sr)))
     = metadata (library (fst sr))"
proof (induction cs arbitrary: sr)
  case Nil
  show ?case by simp
next
  case (Cons c cs)
  obtain s r where sr: "sr = (s, r)" by (cases sr)
  show ?case
    using Cons.IH [of "importFromKindle_step clock c sr"]
    by (simp add: sr step_manual_count step_metadata)
qed

lemma importFromKindle_counts:
  assumes "counts_consistent s"
  shows "counts_consistent (fst (importFromKindle clock (map Some cs) s))"
proof -
  let ?r0 = "\<lparr>total = length cs, added = 0, updated = 0, skipped = 0\<rparr>"
  from fold_step_manual_count [of clock cs "(s, ?r0)"] assms
  show ?thesis
    by (simp add: importFromKindle_objects Let_def Date_now_def set_metadata_def
        counts_consistent_def saveLibrary_def)
qed

lemma importSelectedBooks_counts:
  "counts_consistent (fst (importSelectedBooks clock (map Some cs) s))"
proof -
  let ?ids = "set (map (\<lambda>book. js_get book ''bookId'') (books (library s)))"
  let ?b0 = "\<lparr>importedBooks = [], duplicateBooks = [], errorBooks = []\<rparr>"
  from importSelectedBooks_loop_objects [of clock ?ids cs s ?b0]
  obtain s1 b where
    run: "importSelectedBooks_loop clock ?ids (map Some cs) (s, ?b0) = (s1, Inr b)"
    by blast
  show ?thesis
    unfolding importSelectedBooks_def Let_def run
    by (simp add: counts_consistent_def set_metadata_def saveLibrary_def Date_now_def)
qed

lemma objects_only: "list_all (\<lambda>c. c \<noteq> None) batch \<Longrightarrow> batch = map Some (map the batch)"
  by (induction batch) auto

lemma addBookManually_counts:
  assumes "counts_consistent s" and "js_get bookData ''source'' \<noteq> JStr ''kindle_import''"
  shows "counts_consistent (fst (addBookManually clock bookData s))"
proof -
  have src: "js_or (js_get bookData ''source'') (JStr ''manual_add'') \<noteq> JStr ''kindle_import''"
    using assms(2) by (simp add: js_or_def)
  from addBookManually_cases [of clock bookData s]
  show ?thesis
  proof (elim disjE exE conjE)
    fix newBook s'
    assume run: "addBookManually clock bookData s = (s', Inr newBook)"
      and bs: "books (library s') = books (library s) @ [newBook]"
      and source: "js_get newBook ''source'' =
            js_or (js_get bookData ''source'') (JStr ''manual_add'')"
      and md: "metadata (library s') = (metadata (library s))
             \<lparr>totalBooks := Suc (length (books (library s))),
              manuallyAdded := count_source ''manual_add'' (books (library s) @ [newBook])\<rparr>"
    have "count_source ''kindle_import'' (books (library s) @ [newBook])
        = count_source ''kindle_import'' (books (library s))"
      using src source by (simp add: count_source_append count_source_single)
    with assms(1) show ?thesis
      by (simp add: run counts_consistent_def bs md)
  qed (use assms(1) in simp_all)
qed

lemma library_fetchBookDataFromAmazon [simp]:
  "library (fst (fetchBookDataFromAmazon clock asin r1 r2 s)) = library s"
  by (auto simp add: fetchBookDataFromAmazon_def fetchFromGoogleBooks_def
      generateSmartBookData_def Date_now_def
      split: reply.splits list.splits)

lemma source_fetchBookDataFromAmazon:
  "js_get (snd (fetchBookDataFromAmazon clock asin r1 r2 s)) ''source'' = JUndefined"
  by (auto simp add: fetchBookDataFromAmazon_def fetchFromGoogleBooks_def
      generateSmartBookData_def searched_record_def
      split: reply.splits list.splits)

lemma addBookFromAmazonUrl_counts:
  assumes "counts_consistent s"
  shows "counts_consistent (fst (addBookFromAmazonUrl clock m r1 r2 url s))"
proof (cases "extractASINFromUrl m url")
  case None
  with assms show ?thesis by (simp add: addBookFromAmazonUrl_def)
next
  case (Some asin)
  have "counts_consistent (fst (fetchBookDataFromAmazon clock asin r1 r2 s))"
    using assms by (simp add: counts_consistent_def)
  then have "counts_consistent (fst (addBookManually clock
      (snd (fetchBookDataFromAmazon clock asin r1 r2 s))
      (fst (fetchBookDataFromAmazon clock asin r1 r2 s))))"
    by (rule addBookManually_counts) (simp add: source_fetchBookDataFromAmazon)
  with assms Some show ?thesis
    by (simp add: addBookFromAmazonUrl_def)
qed

lemma addBookFromGoogleBooks_counts:
  assumes "counts_consistent s"
  shows "counts_consistent (fst (addBookFromGoogleBooks clock m r urlOrId s))"
  using addBookFromGoogleBooks_cases [of clock m r urlOrId s] assms
  by (auto simp add: counts_consistent_def count_source_append count_source_single)

lemma updateBook_counts:
  assumes "counts_consistent s"
  shows "counts_consistent (fst (updateBook bookId updates s))"
proof (cases "findIndex (has_bookId bookId) (books (library s))")
  case None
  with assms show ?thesis by (simp add: updateBook_def)
next
  case (Some i)
  show ?thesis by (simp add: updateBook_found [OF Some])
qed

lemma deleteBook_counts:
  assumes "counts_consistent s"
  shows "counts_consistent (fst (deleteBook bookId hardDelete s))"
  using assms
  by (cases "findIndex (has_bookId bookId) (books (library s))")
     (simp_all add: deleteBook_def)

lemma exec_counts:
  assumes "counts_consistent s" and "assigns_counters op"
  shows "counts_consistent (exec clock m op s)"
proof (cases op)
  case (ImportFromKindle batch)
  with assms(2) have "list_all (\<lambda>c. c \<noteq> None) batch"
    by simp
  then have "batch = map Some (map the batch)"
    by (rule objects_only)
  then obtain cs where "batch = map Some cs" ..
  then have eq: "exec clock m op s = fst (importFromKindle clock (map Some cs) s)"
    using ImportFromKindle by simp
  show ?thesis
    unfolding eq by (rule importFromKindle_counts [OF assms(1)])
next
  case (ImportSelectedBooks batch)
  with assms(2) have "list_all (\<lambda>c. c \<noteq> None) batch"
    by simp
  then have "batch = map Some (map the batch)"
    by (rule objects_only)
  then obtain cs where "batch = map Some cs" ..
  then have eq: "exec clock m op s = fst (importSelectedBooks clock (map Some cs) s)"
    using ImportSelectedBooks by simp
  show ?thesis
    unfolding eq by (rule importSelectedBooks_counts)
next
  case (AddBookManually bookData)
  with assms show ?thesis by (simp add: addBookManually_counts)
next
  case (AddBookFromAmazonUrl url r1 r2)
  with assms show ?thesis by (simp add: addBookFromAmazonUrl_counts)
next
  case (AddBookFromGoogleBooks urlOrId r)
  with assms show ?thesis by (simp add: addBookFromGoogleBooks_counts)
next
  case (UpdateBook bookId updates)
  with assms show ?thesis by (simp add: updateBook_counts)
next
  case (DeleteBook bookId hardDelete)
  with assms show ?thesis by (simp add: deleteBook_counts)
next
  case ClearAllBooks
  then show ?thesis
    by (simp add: clearAllBooks_def counts_consistent_def set_metadata_def set_books_def
        empty_metadata_def count_source_def saveLibrary_def)
qed

lemma counters_consistent_otherwise:
  assumes "list_all assigns_counters ops"
  shows "counts_consistent (run clock m ops (new_BookManager stored))"
proof -
  have start: "counts_consistent (new_BookManager stored)"
    by (simp add: counts_consistent_def new_BookManager_def empty_metadata_def
        count_source_def)
  have "counts_consistent (fold (exec clock m) ops s)"
    if "counts_consistent s" and "list_all assigns_counters ops" for s
    using that
  proof (induction ops arbitrary: s)
    case Nil
    then show ?case by simp
  next
    case (Cons op ops)
    then show ?case by (simp add: exec_counts)
  qed
  with start assms show ?thesis
    by (simp add: run_def)
qed

end
